theory Spec2Isabelle
  imports Main "HOL-Library.Word" "HOL-Library.Char_ord" "HOL-Library.List_Lexorder"
    "HOL-Library.Multiset"
begin

section \<open>Strings and formatting helpers\<close>

text \<open>
  A Go string is a sequence of bytes: \<open>string\<close> (\<open>char list\<close>, 8-bit characters).
  With \<open>Char_ord\<close> and \<open>List_Lexorder\<close> the order on \<open>string\<close> is the bytewise
  lexicographic order Go uses to compare strings (a proper prefix is smaller).
\<close>

definition digitChar :: "nat \<Rightarrow> char" where
  "digitChar d = ''0123456789'' ! d"

text \<open>Decimal digits of a natural number, most significant first.\<close>

function digits :: "nat \<Rightarrow> string" where
  "digits n = (if n < 10 then [digitChar n] else digits (n div 10) @ [digitChar (n mod 10)])"
  by pat_completeness auto
termination
  by (relation "measure (\<lambda>n. n)") auto

declare digits.simps [simp del]

text \<open>\<open>%d\<close> of \<open>fmt.Sprintf\<close> and \<open>strconv.FormatInt(_, 10)\<close>.\<close>

definition itoa :: "int \<Rightarrow> string" where
  "itoa i = (if i < 0 then ''-'' @ digits (nat (- i)) else digits (nat i))"

text \<open>\<open>strconv.FormatBool\<close>.\<close>

definition FormatBool :: "bool \<Rightarrow> string" where
  "FormatBool b = (if b then ''true'' else ''false'')"

text \<open>\<open>strings.Join(elems, sep)\<close>.\<close>

fun Join :: "string list \<Rightarrow> string \<Rightarrow> string" where
  "Join [] sep = []"
| "Join [x] sep = x"
| "Join (x # y # ys) sep = x @ sep @ Join (y # ys) sep"

text \<open>\<open>fmt.Sprintf("[%s](%s)", a, b)\<close>.\<close>

definition Sprintf_link :: "string \<Rightarrow> string \<Rightarrow> string" where
  "Sprintf_link a b = ''['' @ a @ '']('' @ b @ '')''"

subsection \<open>\<open>utf8.RuneCountInString\<close>\<close>

text \<open>
  The validator's \<open>max\<close> tag on a string compares the number of runes, as counted by
  \<open>utf8.RuneCountInString\<close>: an ASCII byte is one rune, a well-formed multi-byte
  sequence is one rune, and every byte that starts no well-formed sequence is one
  rune by itself. \<open>first_entry\<close> is the table \<open>first\<close> of package \<open>unicode/utf8\<close> for
  the bytes from \<open>0x80\<close>: the length of the sequence a lead byte announces and the
  range its second byte must lie in (\<open>None\<close> for a byte that cannot lead).
\<close>

definition first_entry :: "char \<Rightarrow> (nat \<times> nat \<times> nat) option" where
  "first_entry c = (let b = (of_char c :: nat) in
     if b < 0xC2 then None
     else if b < 0xE0 then Some (2, 0x80, 0xBF)
     else if b = 0xE0 then Some (3, 0xA0, 0xBF)
     else if b < 0xED then Some (3, 0x80, 0xBF)
     else if b = 0xED then Some (3, 0x80, 0x9F)
     else if b < 0xF0 then Some (3, 0x80, 0xBF)
     else if b = 0xF0 then Some (4, 0x90, 0xBF)
     else if b < 0xF4 then Some (4, 0x80, 0xBF)
     else if b = 0xF4 then Some (4, 0x80, 0x8F)
     else None)"

definition inRange :: "char \<Rightarrow> nat \<Rightarrow> nat \<Rightarrow> bool" where
  "inRange c lo hi \<longleftrightarrow> lo \<le> (of_char c :: nat) \<and> (of_char c :: nat) \<le> hi"

text \<open>The number of bytes the rune starting with byte \<open>c\<close>, followed by \<open>s\<close>, takes.\<close>

definition runeWidth :: "char \<Rightarrow> string \<Rightarrow> nat" where
  "runeWidth c s =
     (if (of_char c :: nat) < 0x80 then 1
      else case first_entry c of
        None \<Rightarrow> 1
      | Some (w, lo, hi) \<Rightarrow>
          if length s + 1 < w then 1
          else if \<not> inRange (s ! 0) lo hi then 1
          else if w = 2 then 2
          else if \<not> inRange (s ! 1) 0x80 0xBF then 1
          else if w = 3 then 3
          else if \<not> inRange (s ! 2) 0x80 0xBF then 1
          else 4)"

fun RuneCountInString :: "string \<Rightarrow> nat" where
  "RuneCountInString [] = 0"
| "RuneCountInString (c # s) = Suc (RuneCountInString (drop (runeWidth c s - 1) s))"

section \<open>The data model (qascsv.go, lines 20 to 112)\<close>

definition staticColumns :: "string list" where
  "staticColumns = [''Folder'', ''Name'', ''Legacy ID'', ''Draft'', ''Priority'', ''Tags'',
     ''Requirements'', ''Links'', ''Files'', ''Preconditions'']"

type_synonym Priority = string

definition PriorityLow :: Priority where "PriorityLow = ''low''"
definition PriorityMedium :: Priority where "PriorityMedium = ''medium''"
definition PriorityHigh :: Priority where "PriorityHigh = ''high''"

text \<open>
  The structs. Field names carry the struct's prefix, since several structs have a
  \<open>Title\<close> and a \<open>URL\<close>. A slice is a list (the code never tells a nil slice from an
  empty one: it only takes lengths, ranges and joins), the pointer \<open>*Requirement\<close> is
  an option, \<open>int64\<close> is a 64-bit word read as signed. A record is a value: the
  model has no caller that writes to the slices of a record after handing it over.
\<close>

record Requirement =
  req_Title :: string
  req_URL :: string

record Link =
  link_Title :: string
  link_URL :: string

record File =
  file_Name :: string
  file_ID :: string
  file_URL :: string
  file_MimeType :: string
  file_Size :: "64 word"

record Step =
  step_Action :: string
  step_Expected :: string

record TestCase =
  tc_Title :: string
  tc_LegacyID :: string
  tc_Folder :: "string list"
  tc_Priority :: Priority
  tc_Tags :: "string list"
  tc_Preconditions :: string
  tc_Steps :: "Step list"
  tc_Requirement :: "Requirement option"
  tc_Files :: "File list"
  tc_Links :: "Link list"
  tc_Draft :: bool

text \<open>
  The engine. The field \<open>validate\<close> holds the validator instance, which has no state
  the code changes; it is left out. The two counters are Go \<open>int\<close>s that only ever
  grow from 0 by increments and by assignments of slice lengths, so they are
  natural numbers here.
\<close>

record QASphereCSV =
  folderTCaseMap :: "string \<rightharpoonup> TestCase list"
  numTCases :: nat
  maxSteps :: nat

section \<open>Errors\<close>

text \<open>
  One \<open>validator.FieldError\<close>: the namespace of the field (\<open>TestCase.Folder[0]\<close>), the
  field's name and the tag that failed.
\<close>

record FieldError =
  fe_Namespace :: string
  fe_Field :: string
  fe_Tag :: string

text \<open>
  \<open>ValidationErrors\<close> is the validator's error (a non-empty list of field errors),
  \<open>MultiError\<close> is \<open>*multierror.Error\<close>, \<open>Wrap e msg\<close> is \<open>errors.Wrap(e, msg)\<close>, and
  \<open>MarshalError\<close> stands for an error of \<open>json.Marshal\<close>.
\<close>

datatype error =
  ValidationErrors "FieldError list"
| MultiError "error list"
| Wrap error string
| MarshalError

section \<open>Field validators (the \<open>validate\<close> struct tags)\<close>

text \<open>
  A field's tags run from left to right and the first that fails is the field's one
  error; \<open>omitempty\<close> ends the run without an error when the field is empty.
\<close>

datatype tag = Check string bool | OmitEmpty bool

fun runTags :: "string \<Rightarrow> string \<Rightarrow> tag list \<Rightarrow> FieldError list" where
  "runTags ns name [] = []"
| "runTags ns name (Check t ok # ts) =
     (if ok then runTags ns name ts
      else [\<lparr>fe_Namespace = ns @ name, fe_Field = name, fe_Tag = t\<rparr>])"
| "runTags ns name (OmitEmpty isEmpty # ts) = (if isEmpty then [] else runTags ns name ts)"

text \<open>\<open>required\<close>: the string is not the zero value.\<close>

definition required :: "string \<Rightarrow> bool" where
  "required s \<longleftrightarrow> s \<noteq> []"

text \<open>\<open>required_without=Other\<close>: when the other field is empty, this one must not be.\<close>

definition required_without :: "string \<Rightarrow> string \<Rightarrow> bool" where
  "required_without other s \<longleftrightarrow> (if other = [] then s \<noteq> [] else True)"

text \<open>\<open>max=n\<close> on a string: at most \<open>n\<close> runes.\<close>

definition max_tag :: "nat \<Rightarrow> string \<Rightarrow> bool" where
  "max_tag n s \<longleftrightarrow> RuneCountInString s \<le> n"

text \<open>\<open>excludesall=chars\<close>: \<open>!strings.ContainsAny(s, chars)\<close>.\<close>

definition excludesall :: "string \<Rightarrow> string \<Rightarrow> bool" where
  "excludesall chars s \<longleftrightarrow> \<not> list_ex (\<lambda>c. c \<in> set chars) s"

text \<open>\<open>oneof=a b c\<close>: the string is one of the listed values.\<close>

definition oneof :: "string list \<Rightarrow> string \<Rightarrow> bool" where
  "oneof vals s \<longleftrightarrow> s \<in> set vals"

subsection \<open>\<open>http_url\<close>\<close>

definition isUpper :: "char \<Rightarrow> bool" where
  "isUpper c \<longleftrightarrow> inRange c 0x41 0x5A"

definition isLower :: "char \<Rightarrow> bool" where
  "isLower c \<longleftrightarrow> inRange c 0x61 0x7A"

definition isDigit :: "char \<Rightarrow> bool" where
  "isDigit c \<longleftrightarrow> inRange c 0x30 0x39"

definition toLowerByte :: "char \<Rightarrow> char" where
  "toLowerByte c = (if isUpper c then char_of ((of_char c :: nat) + 32) else c)"

text \<open>
  \<open>getScheme\<close> of package \<open>net/url\<close>: the scan for the scheme of a raw URL. \<open>acc\<close> is
  the part already read (\<open>rawURL[:i]\<close>). \<open>None\<close> is the error "missing protocol
  scheme"; \<open>Some []\<close> is "no scheme".
\<close>

fun getScheme :: "string \<Rightarrow> string \<Rightarrow> string option" where
  "getScheme acc [] = Some []"
| "getScheme acc (c # cs) =
     (if isLower c \<or> isUpper c then getScheme (acc @ [c]) cs
      else if isDigit c \<or> c = CHR ''+'' \<or> c = CHR ''-'' \<or> c = CHR ''.'' then
        (if acc = [] then Some [] else getScheme (acc @ [c]) cs)
      else if c = CHR '':'' then (if acc = [] then None else Some acc)
      else Some [])"

text \<open>
  The scheme test of \<open>http_url\<close>: the validator lower-cases the string, parses it with
  \<open>url.Parse\<close> and requires the scheme to be \<open>http\<close> or \<open>https\<close>. Lower-casing is
  modelled on the ASCII letters; only ASCII letters lower-case to the letters of
  \<open>http\<close> and \<open>https\<close>, so the test does not depend on what \<open>strings.ToLower\<close> does
  to other runes.
\<close>

definition httpScheme :: "string \<Rightarrow> bool" where
  "httpScheme s \<longleftrightarrow>
     (case getScheme [] (map toLowerByte s) of
        None \<Rightarrow> False
      | Some sch \<Rightarrow> sch = ''http'' \<or> sch = ''https'')"

text \<open>
  \<open>http_url\<close>: a non-empty string with an http or https scheme that \<open>url.Parse\<close>
  accepts with a non-empty host. What \<open>url.Parse\<close> requires beyond the scheme is the
  parameter \<open>parseOK\<close>.
\<close>

definition http_url :: "(string \<Rightarrow> bool) \<Rightarrow> string \<Rightarrow> bool" where
  "http_url parseOK s \<longleftrightarrow> s \<noteq> [] \<and> httpScheme s \<and> parseOK s"

subsection \<open>The structs' validation\<close>

text \<open>\<open>dive\<close>: every element of a slice is validated under the name \<open>Field[i]\<close>.\<close>

definition indexName :: "string \<Rightarrow> nat \<Rightarrow> string" where
  "indexName name i = name @ ''['' @ itoa (int i) @ '']''"

definition dive :: "string \<Rightarrow> (string \<Rightarrow> 'a \<Rightarrow> FieldError list) \<Rightarrow> 'a list \<Rightarrow> FieldError list" where
  "dive name check xs = concat (map (\<lambda>(i, x). check (indexName name i) x) (enumerate 0 xs))"

definition Struct_Requirement :: "(string \<Rightarrow> bool) \<Rightarrow> string \<Rightarrow> Requirement \<Rightarrow> FieldError list" where
  "Struct_Requirement parseOK ns r =
     runTags ns ''Title''
       [Check ''required_without'' (required_without (req_URL r) (req_Title r)),
        Check ''max'' (max_tag 255 (req_Title r))]
   @ runTags ns ''URL''
       [Check ''required_without'' (required_without (req_Title r) (req_URL r)),
        OmitEmpty (req_URL r = []),
        Check ''http_url'' (http_url parseOK (req_URL r)),
        Check ''max'' (max_tag 255 (req_URL r))]"

definition Struct_Link :: "(string \<Rightarrow> bool) \<Rightarrow> string \<Rightarrow> Link \<Rightarrow> FieldError list" where
  "Struct_Link parseOK ns l =
     runTags ns ''Title''
       [Check ''required'' (required (link_Title l)),
        Check ''max'' (max_tag 255 (link_Title l))]
   @ runTags ns ''URL''
       [Check ''required'' (required (link_URL l)),
        Check ''http_url'' (http_url parseOK (link_URL l)),
        Check ''max'' (max_tag 255 (link_URL l))]"

definition Struct_File :: "(string \<Rightarrow> bool) \<Rightarrow> string \<Rightarrow> File \<Rightarrow> FieldError list" where
  "Struct_File parseOK ns f =
     runTags ns ''Name'' [Check ''required'' (required (file_Name f))]
   @ runTags ns ''ID''
       [Check ''required_without'' (required_without (file_URL f) (file_ID f))]
   @ runTags ns ''URL''
       [Check ''required_without'' (required_without (file_ID f) (file_URL f)),
        OmitEmpty (file_URL f = []),
        Check ''http_url'' (http_url parseOK (file_URL f))]"

text \<open>
  \<open>validate.Struct(tc)\<close> on a \<open>TestCase\<close>: the fields in the order of the struct. The
  fields without a tag (\<open>Preconditions\<close>, \<open>Steps\<close>, \<open>Draft\<close>) are not checked; the
  untagged pointer \<open>Requirement\<close> is validated as a struct when it is not nil.
\<close>

definition Struct_TestCase :: "(string \<Rightarrow> bool) \<Rightarrow> TestCase \<Rightarrow> FieldError list" where
  "Struct_TestCase parseOK tc =
     runTags ''TestCase.'' ''Title''
       [Check ''required'' (required (tc_Title tc)),
        Check ''max'' (max_tag 255 (tc_Title tc))]
   @ runTags ''TestCase.'' ''LegacyID'' [Check ''max'' (max_tag 255 (tc_LegacyID tc))]
   @ (case runTags ''TestCase.'' ''Folder'' [Check ''min'' (1 \<le> length (tc_Folder tc))] of
        [] \<Rightarrow> dive ''Folder''
                (\<lambda>name s. runTags ''TestCase.'' name
                   [Check ''required'' (required s),
                    Check ''max'' (max_tag 127 s),
                    Check ''excludesall'' (excludesall ''/'' s)])
                (tc_Folder tc)
      | es \<Rightarrow> es)
   @ runTags ''TestCase.'' ''Priority''
       [Check ''required'' (required (tc_Priority tc)),
        Check ''oneof'' (oneof [''low'', ''medium'', ''high''] (tc_Priority tc))]
   @ dive ''Tags''
       (\<lambda>name s. runTags ''TestCase.'' name
          [Check ''required'' (required s), Check ''max'' (max_tag 255 s)])
       (tc_Tags tc)
   @ (case tc_Requirement tc of
        None \<Rightarrow> []
      | Some r \<Rightarrow> Struct_Requirement parseOK ''TestCase.Requirement.'' r)
   @ dive ''Files'' (\<lambda>name f. Struct_File parseOK (''TestCase.'' @ name @ ''.'') f) (tc_Files tc)
   @ dive ''Links'' (\<lambda>name l. Struct_Link parseOK (''TestCase.'' @ name @ ''.'') l) (tc_Links tc)"

section \<open>The engine (qascsv.go, lines 114 to 182)\<close>

definition NewQASphereCSV :: QASphereCSV where
  "NewQASphereCSV = \<lparr>folderTCaseMap = Map.empty, numTCases = 0, maxSteps = 0\<rparr>"

text \<open>\<open>validateTestCase\<close>: nil, or the validator's \<open>ValidationErrors\<close>.\<close>

definition validateTestCase :: "(string \<Rightarrow> bool) \<Rightarrow> TestCase \<Rightarrow> error option" where
  "validateTestCase parseOK tc =
     (case Struct_TestCase parseOK tc of
        [] \<Rightarrow> None
      | fe # fes \<Rightarrow> Some (ValidationErrors (fe # fes)))"

text \<open>Reading a map of slices at a key: the stored slice, or nil at a missing key.\<close>

definition lookupSlice :: "('k \<rightharpoonup> 'v list) \<Rightarrow> 'k \<Rightarrow> 'v list" where
  "lookupSlice m k = (case m k of None \<Rightarrow> [] | Some vs \<Rightarrow> vs)"

definition folderPathOf :: "TestCase \<Rightarrow> string" where
  "folderPathOf tc = Join (tc_Folder tc) ''/''"

definition addTCase :: "QASphereCSV \<Rightarrow> TestCase \<Rightarrow> QASphereCSV" where
  "addTCase q tc =
     (let folderPath = folderPathOf tc in
      q\<lparr>folderTCaseMap :=
          (folderTCaseMap q)(folderPath \<mapsto> lookupSlice (folderTCaseMap q) folderPath @ [tc]),
        numTCases := numTCases q + 1,
        maxSteps := (if length (tc_Steps tc) > maxSteps q then length (tc_Steps tc)
                     else maxSteps q)\<rparr>)"

text \<open>An operation returns the engine as it leaves it and its error (\<open>None\<close> is nil).\<close>

definition AddTestCase ::
  "(string \<Rightarrow> bool) \<Rightarrow> QASphereCSV \<Rightarrow> TestCase \<Rightarrow> QASphereCSV \<times> error option" where
  "AddTestCase parseOK q tc =
     (case validateTestCase parseOK tc of
        Some err \<Rightarrow> (q, Some (Wrap err ''test case validation''))
      | None \<Rightarrow> (addTCase q tc, None))"

text \<open>\<open>multierror.Append(err, e)\<close> for an \<open>e\<close> that is not itself a multierror.\<close>

definition multierror_Append :: "error option \<Rightarrow> error \<Rightarrow> error option" where
  "multierror_Append err e =
     (case err of
        None \<Rightarrow> Some (MultiError [e])
      | Some (MultiError es) \<Rightarrow> Some (MultiError (es @ [e]))
      | Some other \<Rightarrow> Some (MultiError [other, e]))"

text \<open>The first loop of \<open>AddTestCases\<close>, from index \<open>i\<close> with the error so far.\<close>

fun validateLoop ::
  "(string \<Rightarrow> bool) \<Rightarrow> nat \<Rightarrow> TestCase list \<Rightarrow> error option \<Rightarrow> error option" where
  "validateLoop parseOK i [] err = err"
| "validateLoop parseOK i (tc # tcs) err =
     validateLoop parseOK (i + 1) tcs
       (case validateTestCase parseOK tc of
          Some retErr \<Rightarrow> multierror_Append err (Wrap retErr (''test case '' @ itoa (int i)))
        | None \<Rightarrow> err)"

definition AddTestCases ::
  "(string \<Rightarrow> bool) \<Rightarrow> QASphereCSV \<Rightarrow> TestCase list \<Rightarrow> QASphereCSV \<times> error option" where
  "AddTestCases parseOK q tcs =
     (case validateLoop parseOK 0 tcs None of
        Some err \<Rightarrow> (q, Some (Wrap err ''validation''))
      | None \<Rightarrow> (foldl addTCase q tcs, None))"

section \<open>The export (qascsv.go, lines 148 to 154 and 184 to 251)\<close>

text \<open>
  Go visits the keys of a map in an order it does not fix, and not the same order
  twice. \<open>mapRange m ks\<close>: \<open>ks\<close> is an order in which \<open>for k := range m\<close> may visit the
  keys, each key once. The functions that range over the map take that order as
  their argument \<open>ks\<close>.
\<close>

definition mapRange :: "('k \<rightharpoonup> 'v) \<Rightarrow> 'k list \<Rightarrow> bool" where
  "mapRange m ks \<longleftrightarrow> distinct ks \<and> set ks = dom m"

definition getFolders :: "string list \<Rightarrow> QASphereCSV \<Rightarrow> string list" where
  "getFolders ks q = sort (foldl (\<lambda>folders folder. folders @ [folder]) [] ks)"

subsection \<open>\<open>json.Marshal\<close> of a \<open>[]File\<close>\<close>

text \<open>
  The encoder of package \<open>encoding/json\<close>, for a slice of structs whose fields are
  strings and an \<open>int64\<close>. How a Go string becomes a JSON string literal (quotes and
  escapes) is the parameter \<open>jsonStr\<close>. A field is (its JSON name, whether it is left
  out, being \<open>omitempty\<close> and empty, its encoded value).
\<close>

definition nameEsc :: "string \<Rightarrow> string" where
  "nameEsc name = [CHR 0x22] @ name @ [CHR 0x22] @ '':''"

fun structEncoder :: "char \<Rightarrow> (string \<times> bool \<times> string) list \<Rightarrow> string" where
  "structEncoder next [] = (if next = CHR ''{'' then ''{}'' else ''}'')"
| "structEncoder next ((name, omit, v) # fs) =
     (if omit then structEncoder next fs
      else [next] @ nameEsc name @ v @ structEncoder (CHR '','') fs)"

definition encodeFile :: "(string \<Rightarrow> string) \<Rightarrow> File \<Rightarrow> string" where
  "encodeFile jsonStr f = structEncoder (CHR ''{'')
     [(''file_name'', False, jsonStr (file_Name f)),
      (''id'', file_ID f = [], jsonStr (file_ID f)),
      (''url'', file_URL f = [], jsonStr (file_URL f)),
      (''mime_type'', False, jsonStr (file_MimeType f)),
      (''size'', False, itoa (sint (file_Size f)))]"

fun arrayEncoder :: "nat \<Rightarrow> string list \<Rightarrow> string" where
  "arrayEncoder i [] = '']''"
| "arrayEncoder i (e # es) = (if i > 0 then '','' else []) @ e @ arrayEncoder (i + 1) es"

text \<open>
  No value of type \<open>[]File\<close> makes \<open>json.Marshal\<close> fail. (The code marshals only a
  slice that is not empty, so the \<open>null\<close> of a nil slice never shows.)
\<close>

definition json_Marshal :: "(string \<Rightarrow> string) \<Rightarrow> File list \<Rightarrow> error + string" where
  "json_Marshal jsonStr fs = Inr (''['' @ arrayEncoder 0 (map (encodeFile jsonStr) fs))"

subsection \<open>\<open>getCSVRows\<close>\<close>

definition headerRow :: "nat \<Rightarrow> string list" where
  "headerRow n =
     foldl (\<lambda>row i. row @ [''Step '' @ itoa (int (i + 1)), ''Expected '' @ itoa (int (i + 1))])
       staticColumns [0..<n]"

text \<open>The row of one test case of folder \<open>f\<close>: the body of the inner loop.\<close>

definition tcaseRow ::
  "(string \<Rightarrow> string) \<Rightarrow> nat \<Rightarrow> string \<Rightarrow> TestCase \<Rightarrow> error + string list" where
  "tcaseRow jsonStr maxS f tc =
     (let requirement =
            (case tc_Requirement tc of
               None \<Rightarrow> []
             | Some r \<Rightarrow> Sprintf_link (req_Title r) (req_URL r));
          links =
            foldl (\<lambda>links link. links @ [Sprintf_link (link_Title link) (link_URL link)])
              [] (tc_Links tc);
          marshalled =
            (if length (tc_Files tc) > 0 then
               (case json_Marshal jsonStr (tc_Files tc) of
                  Inl err \<Rightarrow> Inl (Wrap err ''json marshal files'')
                | Inr filesb \<Rightarrow> Inr filesb)
             else Inr [])
      in case marshalled of
           Inl err \<Rightarrow> Inl err
         | Inr files \<Rightarrow>
             Inr (foldl
                   (\<lambda>row i.
                      if i < length (tc_Steps tc) then
                        row @ [step_Action (tc_Steps tc ! i), step_Expected (tc_Steps tc ! i)]
                      else row @ [[], []])
                   [f, tc_Title tc, tc_LegacyID tc, FormatBool (tc_Draft tc), tc_Priority tc,
                    Join (tc_Tags tc) '','', requirement, Join links '','', files,
                    tc_Preconditions tc]
                   [0..<maxS]))"

fun tcasesLoop ::
  "(string \<Rightarrow> string) \<Rightarrow> nat \<Rightarrow> string \<Rightarrow> TestCase list \<Rightarrow> string list list
     \<Rightarrow> error + string list list" where
  "tcasesLoop jsonStr maxS f [] rows = Inr rows"
| "tcasesLoop jsonStr maxS f (tc # tcs) rows =
     (case tcaseRow jsonStr maxS f tc of
        Inl err \<Rightarrow> Inl err
      | Inr row \<Rightarrow> tcasesLoop jsonStr maxS f tcs (rows @ [row]))"

fun foldersLoop ::
  "(string \<Rightarrow> string) \<Rightarrow> QASphereCSV \<Rightarrow> string list \<Rightarrow> string list list
     \<Rightarrow> error + string list list" where
  "foldersLoop jsonStr q [] rows = Inr rows"
| "foldersLoop jsonStr q (f # fs) rows =
     (case tcasesLoop jsonStr (maxSteps q) f (lookupSlice (folderTCaseMap q) f) rows of
        Inl err \<Rightarrow> Inl err
      | Inr rows' \<Rightarrow> foldersLoop jsonStr q fs rows')"

definition getCSVRows ::
  "(string \<Rightarrow> string) \<Rightarrow> string list \<Rightarrow> QASphereCSV \<Rightarrow> error + string list list" where
  "getCSVRows jsonStr ks q =
     foldersLoop jsonStr q (getFolders ks q) [headerRow (maxSteps q)]"

subsection \<open>\<open>csv.NewWriter(w).WriteAll(rows)\<close>\<close>

text \<open>
  The writer of package \<open>encoding/csv\<close> with its defaults (comma, no CRLF). A field
  is quoted when it is \<open>\.\<close>, holds a comma, a quote, a carriage return or a line
  feed, or starts with a white space rune. \<open>firstRuneIsSpace\<close> is \<open>unicode.IsSpace\<close> of
  the first rune, read off the UTF-8 encodings of the white space runes (U+0009 to
  U+000D, U+0020, U+0085, U+00A0, U+1680, U+2000 to U+200A, U+2028, U+2029, U+202F,
  U+205F, U+3000).
\<close>

definition firstRuneIsSpace :: "string \<Rightarrow> bool" where
  "firstRuneIsSpace s \<longleftrightarrow>
     (case s of
        [] \<Rightarrow> False
      | c # r \<Rightarrow>
          if (of_char c :: nat) < 0x80 then inRange c 0x09 0x0D \<or> c = CHR 0x20
          else if c = CHR 0xC2 then take 1 r = [CHR 0x85] \<or> take 1 r = [CHR 0xA0]
          else if c = CHR 0xE1 then take 2 r = [CHR 0x9A, CHR 0x80]
          else if c = CHR 0xE2 then
            (case r of
               d # e # _ \<Rightarrow>
                 (d = CHR 0x80 \<and>
                    (inRange e 0x80 0x8A \<or> e = CHR 0xA8 \<or> e = CHR 0xA9 \<or> e = CHR 0xAF))
                 \<or> (d = CHR 0x81 \<and> e = CHR 0x9F)
             | _ \<Rightarrow> False)
          else if c = CHR 0xE3 then take 2 r = [CHR 0x80, CHR 0x80]
          else False)"

definition fieldNeedsQuotes :: "string \<Rightarrow> bool" where
  "fieldNeedsQuotes field \<longleftrightarrow>
     (if field = [] then False
      else if field = [CHR 0x5C, CHR ''.''] then True
      else if list_ex (\<lambda>c. c = CHR 0x0A \<or> c = CHR 0x0D \<or> c = CHR 0x22 \<or> c = CHR '','') field
        then True
      else firstRuneIsSpace field)"

definition quoted :: "string \<Rightarrow> string" where
  "quoted field =
     [CHR 0x22] @ concat (map (\<lambda>c. if c = CHR 0x22 then [CHR 0x22, CHR 0x22] else [c]) field)
       @ [CHR 0x22]"

text \<open>\<open>Writer.Write\<close>: the fields of one record from index \<open>n\<close>, then the line feed.\<close>

fun csv_fields :: "nat \<Rightarrow> string list \<Rightarrow> string" where
  "csv_fields n [] = [CHR 0x0A]"
| "csv_fields n (field # rest) =
     (if n > 0 then '','' else [])
     @ (if fieldNeedsQuotes field then quoted field else field)
     @ csv_fields (n + 1) rest"

definition csv_WriteAll :: "string list list \<Rightarrow> string" where
  "csv_WriteAll records = concat (map (csv_fields 0) records)"

text \<open>
  \<open>writeCSV\<close> returns its error and what it wrote to \<open>w\<close>; writing to the
  \<open>strings.Builder\<close> of \<open>GenerateCSV\<close> does not fail.
\<close>

definition writeCSV ::
  "(string \<Rightarrow> string) \<Rightarrow> string list \<Rightarrow> QASphereCSV \<Rightarrow> error + string" where
  "writeCSV jsonStr ks q =
     (case getCSVRows jsonStr ks q of
        Inl err \<Rightarrow> Inl (Wrap err ''get csv rows'')
      | Inr rows \<Rightarrow> Inr (csv_WriteAll rows))"

definition GenerateCSV ::
  "(string \<Rightarrow> string) \<Rightarrow> string list \<Rightarrow> QASphereCSV \<Rightarrow> error + string" where
  "GenerateCSV jsonStr ks q =
     (case writeCSV jsonStr ks q of
        Inl err \<Rightarrow> Inl (Wrap err ''generate csv'')
      | Inr s \<Rightarrow> Inr s)"

section \<open>Runs of the engine\<close>

text \<open>
  An engine is built by \<open>NewQASphereCSV\<close> and changed by the two adding operations
  only (its fields are not exported). \<open>run parseOK cs\<close> is the engine after the calls
  \<open>cs\<close>, whether they succeed or not.
\<close>

datatype call = AddOne TestCase | AddMany "TestCase list"

fun exec :: "(string \<Rightarrow> bool) \<Rightarrow> QASphereCSV \<Rightarrow> call \<Rightarrow> QASphereCSV" where
  "exec parseOK q (AddOne tc) = fst (AddTestCase parseOK q tc)"
| "exec parseOK q (AddMany tcs) = fst (AddTestCases parseOK q tcs)"

definition run :: "(string \<Rightarrow> bool) \<Rightarrow> call list \<Rightarrow> QASphereCSV" where
  "run parseOK cs = foldl (exec parseOK) NewQASphereCSV cs"

section \<open>Notions the properties are stated with\<close>

subsection \<open>The accumulated records\<close>

text \<open>
  What a call commits, in the words of the specification: a single record when it
  is valid, a batch when all of its records are valid, nothing otherwise. The
  accumulated records of a run are what its calls committed, in that order.
  \<open>run_eq\<close> below shows that the engine of the code holds exactly these records.
\<close>

fun committed :: "(string \<Rightarrow> bool) \<Rightarrow> call \<Rightarrow> TestCase list" where
  "committed parseOK (AddOne tc) = (if validateTestCase parseOK tc = None then [tc] else [])"
| "committed parseOK (AddMany tcs) =
     (if list_all (\<lambda>tc. validateTestCase parseOK tc = None) tcs then tcs else [])"

definition accepted :: "(string \<Rightarrow> bool) \<Rightarrow> call list \<Rightarrow> TestCase list" where
  "accepted parseOK cs = concat (map (committed parseOK) cs)"

text \<open>The maximum step count over a list of records (0 for no record).\<close>

definition maxStepCount :: "TestCase list \<Rightarrow> nat" where
  "maxStepCount recs = foldr (\<lambda>tc n. max (length (tc_Steps tc)) n) recs 0"

text \<open>
  The order of the export, in the words of the specification: the distinct folder
  paths in ascending order, and under each path its records in the order in which
  they were accumulated.
\<close>

definition exportOrder :: "TestCase list \<Rightarrow> TestCase list" where
  "exportOrder recs =
     concat (map (\<lambda>f. filter (\<lambda>tc. folderPathOf tc = f) recs)
       (sort (remdups (map folderPathOf recs))))"

text \<open>
  The aggregated error of a batch, in the words of the specification: one wrapped
  violation per offending record, tagged with the record's position in the batch.
\<close>

definition violations :: "(string \<Rightarrow> bool) \<Rightarrow> TestCase list \<Rightarrow> error list" where
  "violations parseOK tcs =
     map (\<lambda>i. Wrap (ValidationErrors (Struct_TestCase parseOK (tcs ! i)))
                (''test case '' @ itoa (int i)))
       (filter (\<lambda>i. Struct_TestCase parseOK (tcs ! i) \<noteq> []) [0..<length tcs])"

subsection \<open>The cells of files, in the words of the specification\<close>

text \<open>
  A member \<open>"name":value\<close> of a JSON object, and the object of one file: the members
  \<open>file_name\<close>, \<open>id\<close>, \<open>url\<close>, \<open>mime_type\<close>, \<open>size\<close> in this order, \<open>id\<close> and \<open>url\<close> left out
  when empty, separated by commas, with no white space.
\<close>

definition jsonMember :: "string \<Rightarrow> string \<Rightarrow> string" where
  "jsonMember name v = [CHR 0x22] @ name @ [CHR 0x22, CHR '':''] @ v"

definition fileObject :: "(string \<Rightarrow> string) \<Rightarrow> File \<Rightarrow> string" where
  "fileObject jsonStr f =
     ''{'' @ Join
       ([jsonMember ''file_name'' (jsonStr (file_Name f))]
        @ (if file_ID f = [] then [] else [jsonMember ''id'' (jsonStr (file_ID f))])
        @ (if file_URL f = [] then [] else [jsonMember ''url'' (jsonStr (file_URL f))])
        @ [jsonMember ''mime_type'' (jsonStr (file_MimeType f)),
           jsonMember ''size'' (itoa (sint (file_Size f)))]) '','' @ ''}''"

subsection \<open>The listed defects\<close>

text \<open>
  The defects the specification lists, each with the namespace of the field it is
  a defect of. A title is too long when it has more than 255 characters (runes). A
  URL has a non-http(s) scheme when it is not empty and \<open>httpScheme\<close> does not hold of
  it. A requirement with neither Title nor URL, and a file with neither ID nor URL,
  are defects of both fields.
\<close>

definition titleDefects :: "TestCase \<Rightarrow> string list" where
  "titleDefects tc =
     (if tc_Title tc = [] \<or> 255 < RuneCountInString (tc_Title tc) then [''TestCase.Title'']
      else [])"

definition folderDefects :: "TestCase \<Rightarrow> string list" where
  "folderDefects tc =
     (if tc_Folder tc = [] then [''TestCase.Folder''] else [])
     @ map (\<lambda>i. ''TestCase.'' @ indexName ''Folder'' i)
         (filter (\<lambda>i. CHR ''/'' \<in> set (tc_Folder tc ! i)) [0..<length (tc_Folder tc)])"

definition priorityDefects :: "TestCase \<Rightarrow> string list" where
  "priorityDefects tc =
     (if tc_Priority tc \<notin> {''low'', ''medium'', ''high''} then [''TestCase.Priority''] else [])"

definition tagDefects :: "TestCase \<Rightarrow> string list" where
  "tagDefects tc =
     map (\<lambda>i. ''TestCase.'' @ indexName ''Tags'' i)
       (filter (\<lambda>i. tc_Tags tc ! i = []) [0..<length (tc_Tags tc)])"

definition requirementDefects :: "TestCase \<Rightarrow> string list" where
  "requirementDefects tc =
     (case tc_Requirement tc of
        None \<Rightarrow> []
      | Some r \<Rightarrow>
          (if req_Title r = [] \<and> req_URL r = []
           then [''TestCase.Requirement.Title'', ''TestCase.Requirement.URL''] else [])
          @ (if req_URL r \<noteq> [] \<and> \<not> httpScheme (req_URL r)
             then [''TestCase.Requirement.URL''] else []))"

definition linkDefects :: "TestCase \<Rightarrow> string list" where
  "linkDefects tc =
     concat (map (\<lambda>i.
        (if link_Title (tc_Links tc ! i) = []
         then [''TestCase.'' @ indexName ''Links'' i @ ''.Title''] else [])
        @ (if link_URL (tc_Links tc ! i) = [] \<or> \<not> httpScheme (link_URL (tc_Links tc ! i))
           then [''TestCase.'' @ indexName ''Links'' i @ ''.URL''] else []))
       [0..<length (tc_Links tc)])"

definition fileDefects :: "TestCase \<Rightarrow> string list" where
  "fileDefects tc =
     concat (map (\<lambda>i.
        (if file_Name (tc_Files tc ! i) = []
         then [''TestCase.'' @ indexName ''Files'' i @ ''.Name''] else [])
        @ (if file_ID (tc_Files tc ! i) = [] \<and> file_URL (tc_Files tc ! i) = []
           then [''TestCase.'' @ indexName ''Files'' i @ ''.ID'',
                 ''TestCase.'' @ indexName ''Files'' i @ ''.URL''] else [])
        @ (if file_URL (tc_Files tc ! i) \<noteq> [] \<and> \<not> httpScheme (file_URL (tc_Files tc ! i))
           then [''TestCase.'' @ indexName ''Files'' i @ ''.URL''] else []))
       [0..<length (tc_Files tc)])"

definition listedDefects :: "TestCase \<Rightarrow> string list" where
  "listedDefects tc =
     titleDefects tc @ folderDefects tc @ priorityDefects tc @ tagDefects tc
     @ requirementDefects tc @ linkDefects tc @ fileDefects tc"

text \<open>The field errors \<open>fes\<close> hold an error of the field with namespace \<open>ns\<close>.\<close>

definition reports :: "FieldError list \<Rightarrow> string \<Rightarrow> bool" where
  "reports fes ns \<longleftrightarrow> list_ex (\<lambda>fe. fe_Namespace fe = ns) fes"

subsection \<open>Closed forms of the loops\<close>

text \<open>The cells of a row (\<open>tcaseRow\<close> never fails, see \<open>tcaseRow_eq\<close>).\<close>

definition rowCells :: "(string \<Rightarrow> string) \<Rightarrow> nat \<Rightarrow> string \<Rightarrow> TestCase \<Rightarrow> string list" where
  "rowCells jsonStr maxS f tc = (case tcaseRow jsonStr maxS f tc of Inl _ \<Rightarrow> [] | Inr row \<Rightarrow> row)"

definition stepCells :: "nat \<Rightarrow> Step list \<Rightarrow> string list" where
  "stepCells maxS steps =
     concat (map (\<lambda>i. if i < length steps
                       then [step_Action (steps ! i), step_Expected (steps ! i)]
                       else [[], []]) [0..<maxS])"

text \<open>The error of the first loop of \<open>AddTestCases\<close> as a list: nil when it is empty.\<close>

definition asError :: "error list \<Rightarrow> error option" where
  "asError es = (if es = [] then None else Some (MultiError es))"

definition violationsFrom :: "(string \<Rightarrow> bool) \<Rightarrow> nat \<Rightarrow> TestCase list \<Rightarrow> error list" where
  "violationsFrom parseOK i tcs =
     map (\<lambda>j. Wrap (ValidationErrors (Struct_TestCase parseOK (tcs ! j)))
                (''test case '' @ itoa (int (i + j))))
       (filter (\<lambda>j. Struct_TestCase parseOK (tcs ! j) \<noteq> []) [0..<length tcs])"

subsection \<open>Example inputs\<close>

text \<open>
  Instances of the two parameters: a \<open>url.Parse\<close> that accepts every string, and the
  JSON literal of a string that needs no escape. \<open>tcT1\<close> is the record of the
  specification's scenario, \<open>tcAll\<close> with its two files the first record of the
  repository's tests (qacsv_test.go); \<open>tcNoTitle\<close> and \<open>tcBadLink\<close> have the defects of
  two of the tests' failing records.
\<close>

definition anyHost :: "string \<Rightarrow> bool" where
  "anyHost s = True"

definition plainLiteral :: "string \<Rightarrow> string" where
  "plainLiteral s = [CHR 0x22] @ s @ [CHR 0x22]"

definition tcT1 :: TestCase where
  "tcT1 = \<lparr>tc_Title = ''T1'', tc_LegacyID = [], tc_Folder = [''root''], tc_Priority = ''high'',
     tc_Tags = [], tc_Preconditions = [], tc_Steps = [], tc_Requirement = None, tc_Files = [],
     tc_Links = [], tc_Draft = False\<rparr>"

definition file1 :: File where
  "file1 = \<lparr>file_Name = ''file-1.csv'', file_ID = [], file_URL = ''http://file1'',
     file_MimeType = ''text/csv'', file_Size = 10\<rparr>"

definition file2 :: File where
  "file2 = \<lparr>file_Name = ''file-1.csv'', file_ID = ''file-id'', file_URL = [],
     file_MimeType = ''text/csv'', file_Size = 10\<rparr>"

definition tcAll :: TestCase where
  "tcAll = \<lparr>tc_Title = ''tc-with-all-fields'', tc_LegacyID = ''legacy-id'',
     tc_Folder = [''root'', ''child''], tc_Priority = ''high'', tc_Tags = [''tag1'', ''tag2''],
     tc_Preconditions = ''preconditions'',
     tc_Steps = [\<lparr>step_Action = ''action-1'', step_Expected = ''expected-1''\<rparr>,
                 \<lparr>step_Action = ''action-2'', step_Expected = ''expected-2''\<rparr>],
     tc_Requirement = Some \<lparr>req_Title = ''req1'', req_URL = ''http://req1''\<rparr>,
     tc_Files = [file1, file2],
     tc_Links = [\<lparr>link_Title = ''link-1'', link_URL = ''http://link1''\<rparr>,
                 \<lparr>link_Title = ''link-2'', link_URL = ''http://link2''\<rparr>],
     tc_Draft = False\<rparr>"

definition tcOneStep :: TestCase where
  "tcOneStep = tcT1\<lparr>tc_Title := ''T2'',
     tc_Steps := [\<lparr>step_Action = ''action-1'', step_Expected = []\<rparr>]\<rparr>"

definition tcNoTitle :: TestCase where
  "tcNoTitle = tcT1\<lparr>tc_Title := []\<rparr>"

definition tcBadLink :: TestCase where
  "tcBadLink = tcT1\<lparr>tc_Links := [\<lparr>link_Title = ''link-1'', link_URL = ''ftp://link1''\<rparr>]\<rparr>"

definition exampleCalls :: "call list" where
  "exampleCalls = [AddOne tcAll, AddMany [tcT1, tcOneStep]]"

section \<open>Lemmas\<close>

lemma foldl_snoc_concat: "foldl (\<lambda>row i. row @ g i) a xs = a @ concat (map g xs)"
  by (induction xs arbitrary: a) simp_all

lemma headerRow_eq:
  "headerRow n = staticColumns
     @ concat (map (\<lambda>i. [''Step '' @ itoa (int i), ''Expected '' @ itoa (int i)]) [1..<n + 1])"
proof -
  have "map (\<lambda>i. [''Step '' @ itoa (int (i + 1)), ''Expected '' @ itoa (int (i + 1))]) [0..<n]
      = map (\<lambda>i. [''Step '' @ itoa (int i), ''Expected '' @ itoa (int i)]) (map Suc [0..<n])"
    by simp
  also have "map Suc [0..<n] = [1..<n + 1]"
    by (simp add: map_Suc_upt)
  finally show ?thesis
    unfolding headerRow_def foldl_snoc_concat by simp
qed

lemma foldl_if_concat: "foldl (\<lambda>row i. if P i then row @ g i else row @ h i) a xs = a @ concat (map (\<lambda>i. if P i then g i else h i) xs)"
  by (induction xs arbitrary: a) simp_all

lemma tcaseRow_eq:
  "tcaseRow jsonStr maxS f tc = Inr
     ([f, tc_Title tc, tc_LegacyID tc, FormatBool (tc_Draft tc), tc_Priority tc,
       Join (tc_Tags tc) '','',
       (case tc_Requirement tc of None \<Rightarrow> [] | Some r \<Rightarrow> Sprintf_link (req_Title r) (req_URL r)),
       Join (map (\<lambda>l. Sprintf_link (link_Title l) (link_URL l)) (tc_Links tc)) '','',
       (if tc_Files tc = [] then [] else ''['' @ arrayEncoder 0 (map (encodeFile jsonStr) (tc_Files tc))),
       tc_Preconditions tc] @ stepCells maxS (tc_Steps tc))"
proof -
  have links: "foldl (\<lambda>links link. links @ [Sprintf_link (link_Title link) (link_URL link)]) [] (tc_Links tc)
      = map (\<lambda>l. Sprintf_link (link_Title l) (link_URL l)) (tc_Links tc)"
    using foldl_snoc_concat [of "\<lambda>l. [Sprintf_link (link_Title l) (link_URL l)]" "[]" "tc_Links tc"]
    by (simp add: concat_map_singleton)
  show ?thesis
    unfolding tcaseRow_def Let_def links json_Marshal_def stepCells_def
    by (simp add: foldl_if_concat)
qed

lemma stepCells_length: "length (stepCells maxS steps) = 2 * maxS"
  unfolding stepCells_def by (induction maxS) simp_all

lemma replicate_snoc2: "replicate k x @ [x, x] = x # x # replicate k x"
  by (induction k) simp_all

lemma stepCells_pad:
  "stepCells maxS steps = concat (map (\<lambda>s. [step_Action s, step_Expected s]) (take maxS steps))
     @ replicate (2 * (maxS - length steps)) []"
proof (induction maxS)
  case 0
  show ?case by (simp add: stepCells_def)
next
  case (Suc n)
  have step: "stepCells (Suc n) steps = stepCells n steps
     @ (if n < length steps then [step_Action (steps ! n), step_Expected (steps ! n)] else [[], []])"
    by (simp add: stepCells_def)
  show ?case
  proof (cases "n < length steps")
    case True
    then show ?thesis
      unfolding step Suc.IH by (simp add: take_Suc_conv_app_nth)
  next
    case False
    then have "Suc n - length steps = Suc (n - length steps)" by simp
    with False show ?thesis
      unfolding step Suc.IH by (simp add: replicate_snoc2)
  qed
qed

lemma tcasesLoop_eq:
  "tcasesLoop jsonStr maxS f tcs rows = Inr (rows @ map (rowCells jsonStr maxS f) tcs)"
  by (induction tcs arbitrary: rows) (simp_all add: rowCells_def tcaseRow_eq)

lemma foldersLoop_eq:
  "foldersLoop jsonStr q fs rows =
     Inr (rows @ concat (map (\<lambda>f. map (rowCells jsonStr (maxSteps q) f) (lookupSlice (folderTCaseMap q) f)) fs))"
  by (induction fs arbitrary: rows) (simp_all add: tcasesLoop_eq)

lemma getFolders_eq: "getFolders ks q = sort ks"
  using foldl_snoc_concat [of "\<lambda>k. [k]" "[]" ks] by (simp add: getFolders_def concat_map_singleton)

lemma getCSVRows_eq:
  "getCSVRows jsonStr ks q =
     Inr (headerRow (maxSteps q)
       # concat (map (\<lambda>f. map (rowCells jsonStr (maxSteps q) f) (lookupSlice (folderTCaseMap q) f)) (sort ks)))"
  by (simp add: getCSVRows_def foldersLoop_eq getFolders_eq)

lemma mapRange_sort: "mapRange m ks \<Longrightarrow> sort ks = sorted_list_of_set (dom m)"
  by (metis mapRange_def sorted_list_of_set_sort_remdups distinct_remdups_id)

lemma lookupSlice_addTCase:
  "lookupSlice (folderTCaseMap (addTCase q tc)) f =
     lookupSlice (folderTCaseMap q) f @ (if folderPathOf tc = f then [tc] else [])"
  by (simp add: addTCase_def Let_def lookupSlice_def)

lemma dom_addTCase:
  "dom (folderTCaseMap (addTCase q tc)) = insert (folderPathOf tc) (dom (folderTCaseMap q))"
  by (simp add: addTCase_def Let_def)

lemma numTCases_addTCase: "numTCases (addTCase q tc) = numTCases q + 1"
  by (simp add: addTCase_def Let_def)

lemma maxSteps_addTCase: "maxSteps (addTCase q tc) = max (maxSteps q) (length (tc_Steps tc))"
  by (simp add: addTCase_def Let_def max_def)

lemma lookupSlice_foldl:
  "lookupSlice (folderTCaseMap (foldl addTCase q tcs)) f =
     lookupSlice (folderTCaseMap q) f @ filter (\<lambda>tc. folderPathOf tc = f) tcs"
  by (induction tcs arbitrary: q) (simp_all add: lookupSlice_addTCase)

lemma dom_foldl:
  "dom (folderTCaseMap (foldl addTCase q tcs)) = dom (folderTCaseMap q) \<union> folderPathOf ` set tcs"
  by (induction tcs arbitrary: q) (simp_all add: dom_addTCase)

lemma numTCases_foldl: "numTCases (foldl addTCase q tcs) = numTCases q + length tcs"
  by (induction tcs arbitrary: q) (simp_all add: numTCases_addTCase)

lemma maxStepCount_Cons:
  "maxStepCount (tc # tcs) = max (length (tc_Steps tc)) (maxStepCount tcs)"
  by (simp add: maxStepCount_def)

lemma maxStepCount_Nil: "maxStepCount [] = 0"
  by (simp add: maxStepCount_def)

lemma maxStepCount_append:
  "maxStepCount (xs @ ys) = max (maxStepCount xs) (maxStepCount ys)"
  by (induction xs) (simp_all add: maxStepCount_Cons maxStepCount_Nil max.assoc)

lemma maxSteps_foldl:
  "maxSteps (foldl addTCase q tcs) = max (maxSteps q) (maxStepCount tcs)"
  by (induction tcs arbitrary: q)
    (simp_all add: maxSteps_addTCase maxStepCount_Cons maxStepCount_Nil max.assoc)

lemma maxStepCount_ge: "tc \<in> set recs \<Longrightarrow> length (tc_Steps tc) \<le> maxStepCount recs"
  by (induction recs) (auto simp: maxStepCount_Cons)

lemma validateTestCase_None: "validateTestCase parseOK tc = None \<longleftrightarrow> Struct_TestCase parseOK tc = []"
  by (simp add: validateTestCase_def split: list.splits)

lemma validateTestCase_Some:
  "Struct_TestCase parseOK tc \<noteq> [] \<Longrightarrow>
     validateTestCase parseOK tc = Some (ValidationErrors (Struct_TestCase parseOK tc))"
  by (simp add: validateTestCase_def split: list.splits)

lemma multierror_Append_asError: "multierror_Append (asError es) e = asError (es @ [e])"
  by (simp add: multierror_Append_def asError_def)

lemma violationsFrom_Nil: "violationsFrom parseOK i [] = []"
  by (simp add: violationsFrom_def)

lemma upt_0_Suc_map: "[0..<Suc n] = 0 # map Suc [0..<n]"
  by (simp add: upt_conv_Cons map_Suc_upt del: upt_Suc)

lemma violationsFrom_Cons:
  "violationsFrom parseOK i (tc # tcs) =
     (if Struct_TestCase parseOK tc \<noteq> []
      then [Wrap (ValidationErrors (Struct_TestCase parseOK tc)) (''test case '' @ itoa (int i))]
      else [])
     @ violationsFrom parseOK (i + 1) tcs"
  unfolding violationsFrom_def length_Cons upt_0_Suc_map
  by (simp add: filter_map comp_def ac_simps del: upt_Suc)

lemma validateLoop_eq:
  "validateLoop parseOK i tcs (asError es) = asError (es @ violationsFrom parseOK i tcs)"
proof (induction tcs arbitrary: i es)
  case Nil
  show ?case by (simp add: violationsFrom_Nil)
next
  case (Cons tc tcs)
  show ?case
  proof (cases "Struct_TestCase parseOK tc = []")
    case True
    then have "validateTestCase parseOK tc = None"
      by (simp add: validateTestCase_None)
    with True Cons.IH [of "i + 1" es] show ?thesis
      by (simp add: violationsFrom_Cons)
  next
    case False
    then have "validateTestCase parseOK tc = Some (ValidationErrors (Struct_TestCase parseOK tc))"
      by (rule validateTestCase_Some)
    with False Cons.IH [of "i + 1"] show ?thesis
      by (simp add: violationsFrom_Cons multierror_Append_asError)
  qed
qed

lemma violationsFrom_0: "violationsFrom parseOK 0 tcs = violations parseOK tcs"
  by (simp add: violationsFrom_def violations_def)

lemma validateLoop_None: "validateLoop parseOK 0 tcs None = asError (violations parseOK tcs)"
  using validateLoop_eq [of parseOK 0 tcs "[]"] by (simp add: asError_def violationsFrom_0)

lemma violations_empty:
  "violations parseOK tcs = [] \<longleftrightarrow> list_all (\<lambda>tc. validateTestCase parseOK tc = None) tcs"
  by (auto simp: violations_def filter_empty_conv list_all_iff validateTestCase_None
      all_set_conv_all_nth)

lemma AddTestCases_eq:
  "AddTestCases parseOK q tcs =
     (if list_all (\<lambda>tc. validateTestCase parseOK tc = None) tcs then (foldl addTCase q tcs, None)
      else (q, Some (Wrap (MultiError (violations parseOK tcs)) ''validation'')))"
  by (simp add: AddTestCases_def validateLoop_None asError_def violations_empty)

lemma exec_eq: "exec parseOK q c = foldl addTCase q (committed parseOK c)"
  by (cases c) (simp_all add: AddTestCase_def AddTestCases_eq split: option.splits)

lemma run_eq: "run parseOK cs = foldl addTCase NewQASphereCSV (accepted parseOK cs)"
proof -
  have "foldl (exec parseOK) q cs = foldl addTCase q (concat (map (committed parseOK) cs))" for q
    by (induction cs arbitrary: q) (simp_all add: exec_eq)
  then show ?thesis by (simp add: run_def accepted_def)
qed

lemma lookupSlice_run:
  "lookupSlice (folderTCaseMap (run parseOK cs)) f =
     filter (\<lambda>tc. folderPathOf tc = f) (accepted parseOK cs)"
  unfolding run_eq lookupSlice_foldl by (simp add: NewQASphereCSV_def lookupSlice_def)

lemma dom_run: "dom (folderTCaseMap (run parseOK cs)) = folderPathOf ` set (accepted parseOK cs)"
  by (simp add: run_eq dom_foldl NewQASphereCSV_def)

lemma numTCases_run: "numTCases (run parseOK cs) = length (accepted parseOK cs)"
  by (simp add: run_eq numTCases_foldl NewQASphereCSV_def)

lemma maxSteps_run: "maxSteps (run parseOK cs) = maxStepCount (accepted parseOK cs)"
  by (simp add: run_eq maxSteps_foldl NewQASphereCSV_def)

lemma mapRange_run:
  "mapRange (folderTCaseMap (run parseOK cs)) ks \<longleftrightarrow>
     distinct ks \<and> set ks = folderPathOf ` set (accepted parseOK cs)"
  by (simp add: mapRange_def dom_run)

text \<open>Every run has an order in which its map can be ranged over.\<close>

lemma mapRange_run_exists:
  "mapRange (folderTCaseMap (run parseOK cs)) (remdups (map folderPathOf (accepted parseOK cs)))"
  by (simp add: mapRange_run)

lemma sort_run:
  assumes "mapRange (folderTCaseMap (run parseOK cs)) ks"
  shows "sort ks = sort (remdups (map folderPathOf (accepted parseOK cs)))"
proof -
  have "sort ks = sorted_list_of_set (set (map folderPathOf (accepted parseOK cs)))"
    using mapRange_sort [OF assms] by (simp add: dom_run)
  then show ?thesis by (simp only: sorted_list_of_set_sort_remdups)
qed

lemma export_run:
  assumes "mapRange (folderTCaseMap (run parseOK cs)) ks"
  shows "getCSVRows jsonStr ks (run parseOK cs) =
     Inr (headerRow (maxStepCount (accepted parseOK cs))
       # map (\<lambda>tc. rowCells jsonStr (maxStepCount (accepted parseOK cs)) (folderPathOf tc) tc)
           (exportOrder (accepted parseOK cs)))"
proof -
  have eq: "map (rowCells jsonStr n f) (filter (\<lambda>tc. folderPathOf tc = f) recs)
      = map (\<lambda>tc. rowCells jsonStr n (folderPathOf tc) tc) (filter (\<lambda>tc. folderPathOf tc = f) recs)"
    for n f recs
    by (rule map_cong) simp_all
  show ?thesis
    unfolding getCSVRows_eq sort_run [OF assms] lookupSlice_run maxSteps_run exportOrder_def
    by (simp add: map_concat comp_def eq)
qed

lemma digits_small: "n < 10 \<Longrightarrow> digits n = [digitChar n]"
  by (simp add: digits.simps)

subsection \<open>The order of the export\<close>

lemma mset_filter_disjoint:
  "\<forall>x. \<not> (P x \<and> Q x) \<Longrightarrow>
     mset (filter P xs) + mset (filter Q xs) = mset (filter (\<lambda>x. P x \<or> Q x) xs)"
  by (induction xs) auto

lemma mset_groups:
  "distinct fs \<Longrightarrow>
     mset (concat (map (\<lambda>f. filter (\<lambda>x. g x = f) xs) fs)) = mset (filter (\<lambda>x. g x \<in> set fs) xs)"
proof (induction fs)
  case Nil
  show ?case by simp
next
  case (Cons f fs)
  then have disj: "\<forall>x. \<not> (g x = f \<and> g x \<in> set fs)" by auto
  from Cons show ?case
    using mset_filter_disjoint [OF disj, of xs] by simp
qed

lemma sorted_groups:
  "sorted fs \<Longrightarrow> sorted (map g (concat (map (\<lambda>f. filter (\<lambda>x. g x = f) xs) fs)))"
proof (induction fs)
  case Nil
  show ?case by simp
next
  case (Cons f fs)
  have "map g (filter (\<lambda>x. g x = f) xs) = replicate (length (filter (\<lambda>x. g x = f) xs)) f"
    by (induction xs) simp_all
  then have same: "sorted (map g (filter (\<lambda>x. g x = f) xs))"
    by (simp add: sorted_replicate)
  from Cons show ?case
    by (auto simp: sorted_append same)
qed

lemma filter_groups:
  "distinct fs \<Longrightarrow>
     filter (\<lambda>x. g x = k) (concat (map (\<lambda>f. filter (\<lambda>x. g x = f) xs) fs))
       = (if k \<in> set fs then filter (\<lambda>x. g x = k) xs else [])"
proof (induction fs)
  case Nil
  show ?case by simp
next
  case (Cons f fs)
  have other: "f \<noteq> k \<Longrightarrow> filter (\<lambda>x. g x = f \<and> g x = k) xs = []"
    by (auto simp: filter_empty_conv)
  show ?case
  proof (cases "f = k")
    case True
    with Cons show ?thesis by simp
  next
    case False
    with Cons other show ?thesis by simp
  qed
qed

lemma exportOrder_mset: "mset (exportOrder recs) = mset recs"
  unfolding exportOrder_def by (simp add: mset_groups)

lemma exportOrder_sorted: "sorted (map folderPathOf (exportOrder recs))"
  unfolding exportOrder_def by (rule sorted_groups) simp

lemma exportOrder_stable:
  "filter (\<lambda>tc. folderPathOf tc = f) (exportOrder recs) = filter (\<lambda>tc. folderPathOf tc = f) recs"
proof (cases "f \<in> folderPathOf ` set recs")
  case True
  then show ?thesis
    unfolding exportOrder_def by (simp add: filter_groups)
next
  case False
  then have "filter (\<lambda>tc. folderPathOf tc = f) recs = []"
    by (auto simp: filter_empty_conv)
  with False show ?thesis
    unfolding exportOrder_def by (simp add: filter_groups)
qed

lemma exportOrder_length: "length (exportOrder recs) = length recs"
  using exportOrder_mset [of recs] by (rule mset_eq_length)

lemma exportOrder_set: "set (exportOrder recs) = set recs"
  using exportOrder_mset [of recs] by (rule mset_eq_setD)

subsection \<open>The cells of a row\<close>

lemma rowCells_eq:
  "rowCells jsonStr maxS f tc =
     [f, tc_Title tc, tc_LegacyID tc, FormatBool (tc_Draft tc), tc_Priority tc,
       Join (tc_Tags tc) '','',
       (case tc_Requirement tc of None \<Rightarrow> [] | Some r \<Rightarrow> Sprintf_link (req_Title r) (req_URL r)),
       Join (map (\<lambda>l. Sprintf_link (link_Title l) (link_URL l)) (tc_Links tc)) '','',
       (if tc_Files tc = [] then [] else ''['' @ arrayEncoder 0 (map (encodeFile jsonStr) (tc_Files tc))),
       tc_Preconditions tc] @ stepCells maxS (tc_Steps tc)"
  by (simp add: rowCells_def tcaseRow_eq)

lemma tcaseRow_rowCells: "tcaseRow jsonStr maxS f tc = Inr (rowCells jsonStr maxS f tc)"
  by (simp add: rowCells_def tcaseRow_eq)

lemma rowCells_length: "length (rowCells jsonStr maxS f tc) = 10 + 2 * maxS"
  by (simp add: rowCells_eq stepCells_length)

lemma rowCells_drop: "drop 10 (rowCells jsonStr maxS f tc) = stepCells maxS (tc_Steps tc)"
  by (simp add: rowCells_eq)

lemma rowCells_hd: "hd (rowCells jsonStr maxS f tc) = f"
  by (simp add: rowCells_eq)

lemma Join_Cons: "Join (x # xs) sep = x @ concat (map (\<lambda>y. sep @ y) xs)"
  by (induction xs arbitrary: x) simp_all

lemma arrayEncoder_Suc: "arrayEncoder (Suc i) es = concat (map (\<lambda>e. '','' @ e) es) @ '']''"
  by (induction es arbitrary: i) simp_all

lemma arrayEncoder_Join: "arrayEncoder 0 es = Join es '','' @ '']''"
  by (cases es) (simp_all add: Join_Cons arrayEncoder_Suc)

lemma encodeFile_eq: "encodeFile jsonStr f = fileObject jsonStr f"
  by (simp add: encodeFile_def fileObject_def jsonMember_def nameEsc_def)

subsection \<open>What the validator reports\<close>

lemma reports_append: "reports (xs @ ys) ns \<longleftrightarrow> reports xs ns \<or> reports ys ns"
  by (auto simp: reports_def list_ex_iff)

lemma reports_Nil: "\<not> reports [] ns"
  by (simp add: reports_def)

lemma runTags_reports: "runTags ns name tags \<noteq> [] \<Longrightarrow> reports (runTags ns name tags) (ns @ name)"
  by (induction ns name tags rule: runTags.induct) (auto simp: reports_def split: if_splits)

lemma dive_reports:
  "i < length xs \<Longrightarrow> reports (check (indexName name i) (xs ! i)) ns \<Longrightarrow> reports (dive name check xs) ns"
  unfolding reports_def list_ex_iff dive_def
  by (auto simp: in_set_enumerate_eq intro!: bexI [of _ "(i, xs ! i)"])

lemma Struct_TestCase_Title:
  "tc_Title tc = [] \<or> 255 < RuneCountInString (tc_Title tc) \<Longrightarrow>
     reports (Struct_TestCase parseOK tc) ''TestCase.Title''"
  unfolding Struct_TestCase_def reports_append
  using runTags_reports [of "''TestCase.''" "''Title''"
      "[Check ''required'' (required (tc_Title tc)), Check ''max'' (max_tag 255 (tc_Title tc))]"]
  by (auto simp: required_def max_tag_def simp del: RuneCountInString.simps)

lemma Struct_TestCase_Folder_empty:
  "tc_Folder tc = [] \<Longrightarrow> reports (Struct_TestCase parseOK tc) ''TestCase.Folder''"
  unfolding Struct_TestCase_def reports_append
  by (simp add: reports_def)

lemma Struct_TestCase_Folder_slash:
  assumes "i < length (tc_Folder tc)" and "CHR ''/'' \<in> set (tc_Folder tc ! i)"
  shows "reports (Struct_TestCase parseOK tc) (''TestCase.'' @ indexName ''Folder'' i)"
proof -
  let ?check = "\<lambda>name s. runTags ''TestCase.'' name
       [Check ''required'' (required s), Check ''max'' (max_tag 127 s),
        Check ''excludesall'' (excludesall ''/'' s)]"
  from assms(2) have "?check (indexName ''Folder'' i) (tc_Folder tc ! i) \<noteq> []"
    by (auto simp: required_def excludesall_def list_ex_iff simp del: RuneCountInString.simps)
  then have "reports (?check (indexName ''Folder'' i) (tc_Folder tc ! i))
      (''TestCase.'' @ indexName ''Folder'' i)"
    by (rule runTags_reports)
  with assms(1) have "reports (dive ''Folder'' ?check (tc_Folder tc)) (''TestCase.'' @ indexName ''Folder'' i)"
    by (rule dive_reports)
  moreover from assms(1) have "1 \<le> length (tc_Folder tc)" by simp
  ultimately show ?thesis
    unfolding Struct_TestCase_def reports_append by simp
qed

lemma Struct_TestCase_Priority:
  "tc_Priority tc \<notin> {''low'', ''medium'', ''high''} \<Longrightarrow>
     reports (Struct_TestCase parseOK tc) ''TestCase.Priority''"
  unfolding Struct_TestCase_def reports_append
  using runTags_reports [of "''TestCase.''" "''Priority''"
      "[Check ''required'' (required (tc_Priority tc)),
        Check ''oneof'' (oneof [''low'', ''medium'', ''high''] (tc_Priority tc))]"]
  by (auto simp: required_def oneof_def)

lemma Struct_TestCase_Tags:
  assumes "i < length (tc_Tags tc)" and "tc_Tags tc ! i = []"
  shows "reports (Struct_TestCase parseOK tc) (''TestCase.'' @ indexName ''Tags'' i)"
proof -
  let ?check = "\<lambda>name s. runTags ''TestCase.'' name
       [Check ''required'' (required s), Check ''max'' (max_tag 255 s)]"
  from assms(2) have "?check (indexName ''Tags'' i) (tc_Tags tc ! i) \<noteq> []"
    by (simp add: required_def)
  then have "reports (?check (indexName ''Tags'' i) (tc_Tags tc ! i))
      (''TestCase.'' @ indexName ''Tags'' i)"
    by (rule runTags_reports)
  with assms(1) have "reports (dive ''Tags'' ?check (tc_Tags tc)) (''TestCase.'' @ indexName ''Tags'' i)"
    by (rule dive_reports)
  then show ?thesis
    unfolding Struct_TestCase_def reports_append by simp
qed

lemma Struct_Requirement_Title:
  "req_Title r = [] \<Longrightarrow> req_URL r = [] \<Longrightarrow>
     reports (Struct_Requirement parseOK ns r) (ns @ ''Title'')"
  unfolding Struct_Requirement_def reports_append
  by (simp add: required_without_def reports_def)

lemma Struct_Requirement_URL:
  "(req_Title r = [] \<and> req_URL r = []) \<or> (req_URL r \<noteq> [] \<and> \<not> httpScheme (req_URL r)) \<Longrightarrow>
     reports (Struct_Requirement parseOK ns r) (ns @ ''URL'')"
  unfolding Struct_Requirement_def reports_append
  by (auto simp: required_without_def reports_def http_url_def)

lemma Struct_TestCase_Requirement:
  "tc_Requirement tc = Some r \<Longrightarrow> reports (Struct_Requirement parseOK ''TestCase.Requirement.'' r) ns \<Longrightarrow>
     reports (Struct_TestCase parseOK tc) ns"
  unfolding Struct_TestCase_def reports_append by simp

lemma Struct_Link_Title:
  "link_Title l = [] \<Longrightarrow> reports (Struct_Link parseOK ns l) (ns @ ''Title'')"
  unfolding Struct_Link_def reports_append
  by (simp add: required_def reports_def)

lemma Struct_Link_URL:
  "link_URL l = [] \<or> \<not> httpScheme (link_URL l) \<Longrightarrow> reports (Struct_Link parseOK ns l) (ns @ ''URL'')"
  unfolding Struct_Link_def reports_append
  by (auto simp: required_def reports_def http_url_def)

lemma Struct_TestCase_Links:
  assumes "i < length (tc_Links tc)"
    and "reports (Struct_Link parseOK (''TestCase.'' @ indexName ''Links'' i @ ''.'') (tc_Links tc ! i)) ns"
  shows "reports (Struct_TestCase parseOK tc) ns"
proof -
  from assms have "reports (dive ''Links'' (\<lambda>name l. Struct_Link parseOK (''TestCase.'' @ name @ ''.'') l) (tc_Links tc)) ns"
    by (rule dive_reports)
  then show ?thesis
    unfolding Struct_TestCase_def reports_append by simp
qed

lemma Struct_File_Name:
  "file_Name f = [] \<Longrightarrow> reports (Struct_File parseOK ns f) (ns @ ''Name'')"
  unfolding Struct_File_def reports_append
  by (simp add: required_def reports_def)

lemma Struct_File_ID:
  "file_ID f = [] \<Longrightarrow> file_URL f = [] \<Longrightarrow> reports (Struct_File parseOK ns f) (ns @ ''ID'')"
  unfolding Struct_File_def reports_append
  by (simp add: required_without_def reports_def)

lemma Struct_File_URL:
  "(file_ID f = [] \<and> file_URL f = []) \<or> (file_URL f \<noteq> [] \<and> \<not> httpScheme (file_URL f)) \<Longrightarrow>
     reports (Struct_File parseOK ns f) (ns @ ''URL'')"
  unfolding Struct_File_def reports_append
  by (auto simp: required_without_def reports_def http_url_def)

lemma Struct_TestCase_Files:
  assumes "i < length (tc_Files tc)"
    and "reports (Struct_File parseOK (''TestCase.'' @ indexName ''Files'' i @ ''.'') (tc_Files tc ! i)) ns"
  shows "reports (Struct_TestCase parseOK tc) ns"
proof -
  from assms have "reports (dive ''Files'' (\<lambda>name f. Struct_File parseOK (''TestCase.'' @ name @ ''.'') f) (tc_Files tc)) ns"
    by (rule dive_reports)
  then show ?thesis
    unfolding Struct_TestCase_def reports_append by simp
qed

lemma titleDefects_reported:
  "ns \<in> set (titleDefects tc) \<Longrightarrow> reports (Struct_TestCase parseOK tc) ns"
  using Struct_TestCase_Title [of tc parseOK]
  by (simp add: titleDefects_def del: RuneCountInString.simps split: if_splits)

lemma folderDefects_reported:
  "ns \<in> set (folderDefects tc) \<Longrightarrow> reports (Struct_TestCase parseOK tc) ns"
  using Struct_TestCase_Folder_empty [of tc parseOK] Struct_TestCase_Folder_slash [of _ tc parseOK]
  by (auto simp: folderDefects_def split: if_splits)

lemma priorityDefects_reported:
  "ns \<in> set (priorityDefects tc) \<Longrightarrow> reports (Struct_TestCase parseOK tc) ns"
  using Struct_TestCase_Priority [of tc parseOK]
  by (simp add: priorityDefects_def split: if_splits)

lemma tagDefects_reported:
  "ns \<in> set (tagDefects tc) \<Longrightarrow> reports (Struct_TestCase parseOK tc) ns"
  using Struct_TestCase_Tags [of _ tc parseOK]
  by (auto simp: tagDefects_def)

lemma requirementDefects_reported:
  assumes "ns \<in> set (requirementDefects tc)"
  shows "reports (Struct_TestCase parseOK tc) ns"
proof (cases "tc_Requirement tc")
  case None
  with assms show ?thesis by (simp add: requirementDefects_def)
next
  case (Some r)
  with assms have "(ns = ''TestCase.Requirement.'' @ ''Title'' \<and> req_Title r = [] \<and> req_URL r = [])
      \<or> (ns = ''TestCase.Requirement.'' @ ''URL''
          \<and> ((req_Title r = [] \<and> req_URL r = []) \<or> (req_URL r \<noteq> [] \<and> \<not> httpScheme (req_URL r))))"
    by (auto simp: requirementDefects_def split: if_splits)
  then show ?thesis
    using Struct_TestCase_Requirement [OF Some Struct_Requirement_Title]
      Struct_TestCase_Requirement [OF Some Struct_Requirement_URL]
    by blast
qed

lemma linkDefects_reported:
  assumes "ns \<in> set (linkDefects tc)"
  shows "reports (Struct_TestCase parseOK tc) ns"
proof -
  from assms obtain i where i: "i < length (tc_Links tc)"
    and "(ns = (''TestCase.'' @ indexName ''Links'' i @ ''.'') @ ''Title''
           \<and> link_Title (tc_Links tc ! i) = [])
      \<or> (ns = (''TestCase.'' @ indexName ''Links'' i @ ''.'') @ ''URL''
           \<and> (link_URL (tc_Links tc ! i) = [] \<or> \<not> httpScheme (link_URL (tc_Links tc ! i))))"
    by (auto simp: linkDefects_def split: if_splits)
  then show ?thesis
    using Struct_TestCase_Links [OF i Struct_Link_Title] Struct_TestCase_Links [OF i Struct_Link_URL]
    by blast
qed

lemma fileDefects_reported:
  assumes "ns \<in> set (fileDefects tc)"
  shows "reports (Struct_TestCase parseOK tc) ns"
proof -
  from assms obtain i where i: "i < length (tc_Files tc)"
    and "(ns = (''TestCase.'' @ indexName ''Files'' i @ ''.'') @ ''Name''
           \<and> file_Name (tc_Files tc ! i) = [])
      \<or> (ns = (''TestCase.'' @ indexName ''Files'' i @ ''.'') @ ''ID''
           \<and> file_ID (tc_Files tc ! i) = [] \<and> file_URL (tc_Files tc ! i) = [])
      \<or> (ns = (''TestCase.'' @ indexName ''Files'' i @ ''.'') @ ''URL''
           \<and> ((file_ID (tc_Files tc ! i) = [] \<and> file_URL (tc_Files tc ! i) = [])
              \<or> (file_URL (tc_Files tc ! i) \<noteq> [] \<and> \<not> httpScheme (file_URL (tc_Files tc ! i)))))"
    by (auto simp: fileDefects_def split: if_splits)
  then show ?thesis
    using Struct_TestCase_Files [OF i Struct_File_Name] Struct_TestCase_Files [OF i Struct_File_ID]
      Struct_TestCase_Files [OF i Struct_File_URL]
    by blast
qed

lemma listedDefects_reported:
  "ns \<in> set (listedDefects tc) \<Longrightarrow> reports (Struct_TestCase parseOK tc) ns"
  unfolding listedDefects_def set_append Un_iff
  by (elim disjE)
    (erule titleDefects_reported folderDefects_reported priorityDefects_reported
       tagDefects_reported requirementDefects_reported linkDefects_reported
       fileDefects_reported)+

subsection \<open>The example inputs, evaluated\<close>

lemma ascii_RuneCount:
  "list_all (\<lambda>c. (of_char c :: nat) < 0x80) s \<Longrightarrow> RuneCountInString s = length s"
  by (induction s) (simp_all add: runeWidth_def)

lemma valid_tcT1: "Struct_TestCase parseOK tcT1 = []"
  by (simp add: Struct_TestCase_def tcT1_def required_def max_tag_def oneof_def excludesall_def
      dive_def indexName_def ascii_RuneCount del: RuneCountInString.simps)

lemma accepted_T1: "accepted parseOK [AddOne tcT1] = [tcT1]"
  by (simp add: accepted_def validateTestCase_None valid_tcT1)

lemma csv_header: "csv_fields 0 staticColumns =
  ''Folder,Name,Legacy ID,Draft,Priority,Tags,Requirements,Links,Files,Preconditions'' @ [CHR 0x0A]"
  by (simp add: staticColumns_def fieldNeedsQuotes_def firstRuneIsSpace_def inRange_def)

lemma rowCells_T1:
  "rowCells jsonStr 0 ''root'' tcT1 = [''root'', ''T1'', [], ''false'', ''high'', [], [], [], [], []]"
  by (simp add: rowCells_def tcaseRow_eq tcT1_def FormatBool_def stepCells_def)

lemma folderPathOf_T1: "folderPathOf tcT1 = ''root''"
  by (simp add: folderPathOf_def tcT1_def)

lemma steps_T1: "tc_Steps tcT1 = []"
  by (simp add: tcT1_def)

lemma csv_row_T1:
  "csv_fields 0 [''root'', ''T1'', [], ''false'', ''high'', [], [], [], [], []] =
     ''root,T1,,false,high,,,,,'' @ [CHR 0x0A]"
  by (simp add: fieldNeedsQuotes_def firstRuneIsSpace_def inRange_def)

lemma mapRange_T1: "mapRange (folderTCaseMap (run parseOK [AddOne tcT1])) [''root'']"
  by (simp add: mapRange_run accepted_T1 folderPathOf_T1)

lemma valid_tcAll: "Struct_TestCase anyHost tcAll = []"
  by code_simp

lemma accepted_two: "accepted anyHost [AddOne tcAll, AddOne tcT1] = [tcAll, tcT1]"
  by (simp add: accepted_def validateTestCase_None valid_tcT1 valid_tcAll)

lemma folderPathOf_All: "folderPathOf tcAll = ''root/child''"
  by (simp add: folderPathOf_def tcAll_def)

lemma mapRange_two_a: "mapRange (folderTCaseMap (run anyHost [AddOne tcAll, AddOne tcT1])) [''root/child'', ''root'']"
  by (auto simp add: mapRange_run accepted_two folderPathOf_T1 folderPathOf_All)

lemma mapRange_two_b: "mapRange (folderTCaseMap (run anyHost [AddOne tcAll, AddOne tcT1])) [''root'', ''root/child'']"
  by (auto simp add: mapRange_run accepted_two folderPathOf_T1 folderPathOf_All)

lemma defect_BadLink: "''TestCase.Links[0].URL'' \<in> set (listedDefects tcBadLink)"
  by code_simp

lemma Struct_BadLink:
  "Struct_TestCase anyHost tcBadLink =
     [\<lparr>fe_Namespace = ''TestCase.Links[0].URL'', fe_Field = ''URL'', fe_Tag = ''http_url''\<rparr>]"
  by code_simp

lemma Struct_NoTitle:
  "Struct_TestCase anyHost tcNoTitle =
     [\<lparr>fe_Namespace = ''TestCase.Title'', fe_Field = ''Title'', fe_Tag = ''required''\<rparr>]"
  by code_simp

lemma valid_tcOneStep: "Struct_TestCase anyHost tcOneStep = []"
  by code_simp

lemma violations_example:
  "violations anyHost [tcT1, tcNoTitle] =
     [Wrap (ValidationErrors
        [\<lparr>fe_Namespace = ''TestCase.Title'', fe_Field = ''Title'', fe_Tag = ''required''\<rparr>])
        ''test case 1'']"
  by (simp add: violations_def valid_tcT1 Struct_NoTitle upt_conv_Cons itoa_def digits_small digitChar_def)

lemma folderPathOf_OneStep: "folderPathOf tcOneStep = ''root''"
  by (simp add: folderPathOf_def tcOneStep_def tcT1_def)

lemma accepted_example: "accepted anyHost exampleCalls = [tcAll, tcT1, tcOneStep]"
  by (simp add: exampleCalls_def accepted_def validateTestCase_None valid_tcT1 valid_tcAll
      valid_tcOneStep)

lemma mapRange_example:
  "mapRange (folderTCaseMap (run anyHost exampleCalls)) [''root/child'', ''root'']"
  by (auto simp add: mapRange_run accepted_example folderPathOf_T1 folderPathOf_All
      folderPathOf_OneStep)

lemma exportOrder_example: "exportOrder [tcAll, tcT1, tcOneStep] = [tcT1, tcOneStep, tcAll]"
  by (simp add: exportOrder_def folderPathOf_T1 folderPathOf_All folderPathOf_OneStep)

lemma maxStepCount_example: "maxStepCount [tcAll, tcT1, tcOneStep] = 2"
  by (simp add: maxStepCount_def tcAll_def tcT1_def tcOneStep_def)

lemma itoa_1: "itoa (int 1) = ''1''"
  by (simp add: itoa_def digits_small digitChar_def)

lemma itoa_2: "itoa (int 2) = ''2''"
  by (simp add: itoa_def digits_small digitChar_def)

lemma steps_OneStep: "tc_Steps tcOneStep = [\<lparr>step_Action = ''action-1'', step_Expected = []\<rparr>]"
  by (simp add: tcOneStep_def)

lemma req_All: "tc_Requirement tcAll = Some \<lparr>req_Title = ''req1'', req_URL = ''http://req1''\<rparr>"
  by (simp add: tcAll_def)

lemma links_All:
  "tc_Links tcAll = [\<lparr>link_Title = ''link-1'', link_URL = ''http://link1''\<rparr>,
                     \<lparr>link_Title = ''link-2'', link_URL = ''http://link2''\<rparr>]"
  by (simp add: tcAll_def)

lemma req_T1: "tc_Requirement tcT1 = None"
  by (simp add: tcT1_def)

lemma links_T1: "tc_Links tcT1 = []"
  by (simp add: tcT1_def)

lemma files_All: "tc_Files tcAll = [file1, file2]"
  by (simp add: tcAll_def)

lemma files_T1: "tc_Files tcT1 = []"
  by (simp add: tcT1_def)

lemma fileObject_file1:
  "fileObject plainLiteral file1 =
     ''{'' @ plainLiteral ''file_name'' @ '':'' @ plainLiteral ''file-1.csv''
     @ '','' @ plainLiteral ''url'' @ '':'' @ plainLiteral ''http://file1''
     @ '','' @ plainLiteral ''mime_type'' @ '':'' @ plainLiteral ''text/csv''
     @ '','' @ plainLiteral ''size'' @ '':10}''"
  by code_simp

lemma fileObject_file2:
  "fileObject plainLiteral file2 =
     ''{'' @ plainLiteral ''file_name'' @ '':'' @ plainLiteral ''file-1.csv''
     @ '','' @ plainLiteral ''id'' @ '':'' @ plainLiteral ''file-id''
     @ '','' @ plainLiteral ''mime_type'' @ '':'' @ plainLiteral ''text/csv''
     @ '','' @ plainLiteral ''size'' @ '':10}''"
  by code_simp

section \<open>The claims\<close>

text \<open>
  Claim C1. For every run of the engine and every order of ranging over its map,
  the first row of the exported grid is the 10 static column names followed, for
  \<open>i\<close> from 1 to the maximum step count over the accumulated records, by \<open>Step i\<close>
  and \<open>Expected i\<close>; that maximum is the counter \<open>maxSteps\<close> of the engine at the time
  of the export. There is one data row per accumulated record; every data row has
  10 + 2 * maxSteps cells, and after its 10 static cells come the Action and
  Expected of each of the record's steps, then two empty strings per missing step.
\<close>

theorem header_and_row_width:
  assumes "mapRange (folderTCaseMap (run parseOK cs)) ks"
  shows "\<exists>dataRows.
     getCSVRows jsonStr ks (run parseOK cs) =
       Inr (([''Folder'', ''Name'', ''Legacy ID'', ''Draft'', ''Priority'', ''Tags'',
              ''Requirements'', ''Links'', ''Files'', ''Preconditions'']
             @ concat (map (\<lambda>i. [''Step '' @ itoa (int i), ''Expected '' @ itoa (int i)])
                 [1..<maxStepCount (accepted parseOK cs) + 1]))
            # dataRows)
     \<and> maxSteps (run parseOK cs) = maxStepCount (accepted parseOK cs)
     \<and> length dataRows = length (accepted parseOK cs)
     \<and> (\<forall>i<length dataRows.
          length (dataRows ! i) = 10 + 2 * maxStepCount (accepted parseOK cs)
          \<and> drop 10 (dataRows ! i) =
              concat (map (\<lambda>s. [step_Action s, step_Expected s])
                (tc_Steps (exportOrder (accepted parseOK cs) ! i)))
              @ replicate (2 * (maxStepCount (accepted parseOK cs)
                  - length (tc_Steps (exportOrder (accepted parseOK cs) ! i)))) [])"
proof -
  let ?recs = "accepted parseOK cs"
  let ?M = "maxStepCount ?recs"
  let ?rows = "map (\<lambda>tc. rowCells jsonStr ?M (folderPathOf tc) tc) (exportOrder ?recs)"
  have hdr: "getCSVRows jsonStr ks (run parseOK cs) =
       Inr (([''Folder'', ''Name'', ''Legacy ID'', ''Draft'', ''Priority'', ''Tags'',
              ''Requirements'', ''Links'', ''Files'', ''Preconditions'']
             @ concat (map (\<lambda>i. [''Step '' @ itoa (int i), ''Expected '' @ itoa (int i)])
                 [1..<?M + 1])) # ?rows)"
    unfolding export_run [OF assms] headerRow_eq by (simp add: staticColumns_def)
  have len: "length ?rows = length ?recs"
    by (simp add: exportOrder_length)
  have cells: "length (?rows ! i) = 10 + 2 * ?M
      \<and> drop 10 (?rows ! i) =
          concat (map (\<lambda>s. [step_Action s, step_Expected s]) (tc_Steps (exportOrder ?recs ! i)))
          @ replicate (2 * (?M - length (tc_Steps (exportOrder ?recs ! i)))) []"
    if "i < length ?rows" for i
  proof -
    from that have i: "i < length (exportOrder ?recs)" by simp
    then have "exportOrder ?recs ! i \<in> set ?recs"
      using exportOrder_set [of ?recs] nth_mem by blast
    then have "length (tc_Steps (exportOrder ?recs ! i)) \<le> ?M"
      by (rule maxStepCount_ge)
    then have "take ?M (tc_Steps (exportOrder ?recs ! i)) = tc_Steps (exportOrder ?recs ! i)"
      by simp
    with i show ?thesis
      by (simp add: rowCells_length rowCells_drop stepCells_pad)
  qed
  from hdr len cells maxSteps_run [of parseOK cs] show ?thesis by blast
qed

text \<open>
  The theorem of C1 on the example run: \<open>tcAll\<close> added alone, then \<open>tcT1\<close> and
  \<open>tcOneStep\<close> added as a batch; the map is ranged over with \<open>root/child\<close> first.
\<close>

theorem header_and_row_width_witness:
  "mapRange (folderTCaseMap (run anyHost exampleCalls)) [''root/child'', ''root'']
   \<and> (\<exists>dataRows.
        getCSVRows plainLiteral [''root/child'', ''root''] (run anyHost exampleCalls) =
          Inr ([''Folder'', ''Name'', ''Legacy ID'', ''Draft'', ''Priority'', ''Tags'',
                ''Requirements'', ''Links'', ''Files'', ''Preconditions'',
                ''Step 1'', ''Expected 1'', ''Step 2'', ''Expected 2''] # dataRows)
        \<and> length dataRows = 3
        \<and> length (dataRows ! 0) = 14 \<and> drop 10 (dataRows ! 0) = [[], [], [], []]
        \<and> length (dataRows ! 1) = 14 \<and> drop 10 (dataRows ! 1) = [''action-1'', [], [], []])"
proof -
  from header_and_row_width [OF mapRange_example, where jsonStr = plainLiteral]
  obtain dataRows where
    rows: "getCSVRows plainLiteral [''root/child'', ''root''] (run anyHost exampleCalls) =
       Inr (([''Folder'', ''Name'', ''Legacy ID'', ''Draft'', ''Priority'', ''Tags'',
              ''Requirements'', ''Links'', ''Files'', ''Preconditions'']
             @ concat (map (\<lambda>i. [''Step '' @ itoa (int i), ''Expected '' @ itoa (int i)])
                 [1..<maxStepCount (accepted anyHost exampleCalls) + 1]))
            # dataRows)"
    and len: "length dataRows = length (accepted anyHost exampleCalls)"
    and cells: "\<forall>i<length dataRows.
          length (dataRows ! i) = 10 + 2 * maxStepCount (accepted anyHost exampleCalls)
          \<and> drop 10 (dataRows ! i) =
              concat (map (\<lambda>s. [step_Action s, step_Expected s])
                (tc_Steps (exportOrder (accepted anyHost exampleCalls) ! i)))
              @ replicate (2 * (maxStepCount (accepted anyHost exampleCalls)
                  - length (tc_Steps (exportOrder (accepted anyHost exampleCalls) ! i)))) []"
    by blast
  have upt: "[1..<2 + 1] = [1, 2::nat]"
    by (simp add: upt_conv_Cons)
  from rows have "getCSVRows plainLiteral [''root/child'', ''root''] (run anyHost exampleCalls) =
          Inr ([''Folder'', ''Name'', ''Legacy ID'', ''Draft'', ''Priority'', ''Tags'',
                ''Requirements'', ''Links'', ''Files'', ''Preconditions'',
                ''Step 1'', ''Expected 1'', ''Step 2'', ''Expected 2''] # dataRows)"
    unfolding accepted_example maxStepCount_example upt
    using itoa_1 itoa_2 by simp
  moreover from len have l3: "length dataRows = 3"
    by (simp add: accepted_example)
  moreover from cells [rule_format, of 0] l3
  have "length (dataRows ! 0) = 14 \<and> drop 10 (dataRows ! 0) = [[], [], [], []]"
    by (simp add: accepted_example maxStepCount_example exportOrder_example steps_T1
        numeral_eq_Suc)
  moreover from cells [rule_format, of 1] l3
  have "length (dataRows ! 1) = 14 \<and> drop 10 (dataRows ! 1) = [''action-1'', [], [], []]"
    by (simp add: accepted_example maxStepCount_example exportOrder_example steps_OneStep
        numeral_eq_Suc)
  ultimately show ?thesis
    using mapRange_example by blast
qed

text \<open>
  Claim C2. For every engine and every batch given to \<open>AddTestCases\<close>: if a record of
  the batch fails validation, the engine is returned as it was and the error is the
  multierror of one wrapped violation per offending record, tagged \<open>test case i\<close>
  with the record's position \<open>i\<close> in the batch, in the order of the batch; otherwise
  nil is returned and every record is accumulated: each folder's slice grows by the
  batch's records of that folder, in the order of the batch, the record count grows
  by the length of the batch and the step counter becomes the maximum of its old
  value and the batch's step counts.
\<close>

theorem AddTestCases_all_or_nothing:
  "AddTestCases parseOK q tcs =
     (if list_ex (\<lambda>tc. validateTestCase parseOK tc \<noteq> None) tcs
      then (q, Some (Wrap (MultiError (violations parseOK tcs)) ''validation''))
      else (foldl addTCase q tcs, None))
   \<and> length (violations parseOK tcs) = length (filter (\<lambda>tc. validateTestCase parseOK tc \<noteq> None) tcs)
   \<and> (\<forall>f. lookupSlice (folderTCaseMap (foldl addTCase q tcs)) f =
          lookupSlice (folderTCaseMap q) f @ filter (\<lambda>tc. folderPathOf tc = f) tcs)
   \<and> dom (folderTCaseMap (foldl addTCase q tcs)) = dom (folderTCaseMap q) \<union> folderPathOf ` set tcs
   \<and> numTCases (foldl addTCase q tcs) = numTCases q + length tcs
   \<and> maxSteps (foldl addTCase q tcs) = max (maxSteps q) (maxStepCount tcs)"
proof -
  have "list_ex (\<lambda>tc. validateTestCase parseOK tc \<noteq> None) tcs
      \<longleftrightarrow> \<not> list_all (\<lambda>tc. validateTestCase parseOK tc = None) tcs"
    by (simp add: list_ex_iff list_all_iff)
  then have result: "AddTestCases parseOK q tcs =
     (if list_ex (\<lambda>tc. validateTestCase parseOK tc \<noteq> None) tcs
      then (q, Some (Wrap (MultiError (violations parseOK tcs)) ''validation''))
      else (foldl addTCase q tcs, None))"
    by (simp add: AddTestCases_eq)
  have "length (filter (\<lambda>i. P (tcs ! i)) [0..<length tcs]) = length (filter P tcs)" for P
  proof -
    have "filter P tcs = filter P (map (\<lambda>i. tcs ! i) [0..<length tcs])"
      by (simp add: map_nth)
    also have "\<dots> = map (\<lambda>i. tcs ! i) (filter (\<lambda>i. P (tcs ! i)) [0..<length tcs])"
      by (simp add: filter_map comp_def)
    finally show ?thesis by simp
  qed
  then have count: "length (violations parseOK tcs)
      = length (filter (\<lambda>tc. validateTestCase parseOK tc \<noteq> None) tcs)"
    by (simp add: violations_def validateTestCase_None)
  from result count show ?thesis
    by (simp add: lookupSlice_foldl dom_foldl numTCases_foldl maxSteps_foldl)
qed

text \<open>
  The theorem of C2 on a batch whose second record has no title, and on a batch of
  two valid records.
\<close>

theorem AddTestCases_all_or_nothing_witness:
  "AddTestCases anyHost NewQASphereCSV [tcT1, tcNoTitle] =
     (NewQASphereCSV,
      Some (Wrap (MultiError
        [Wrap (ValidationErrors
           [\<lparr>fe_Namespace = ''TestCase.Title'', fe_Field = ''Title'', fe_Tag = ''required''\<rparr>])
           ''test case 1'']) ''validation''))
   \<and> AddTestCases anyHost NewQASphereCSV [tcT1, tcOneStep] =
       (foldl addTCase NewQASphereCSV [tcT1, tcOneStep], None)
   \<and> lookupSlice (folderTCaseMap (foldl addTCase NewQASphereCSV [tcT1, tcOneStep])) ''root''
       = [tcT1, tcOneStep]
   \<and> numTCases (foldl addTCase NewQASphereCSV [tcT1, tcOneStep]) = 2
   \<and> maxSteps (foldl addTCase NewQASphereCSV [tcT1, tcOneStep]) = 1"
proof -
  have bad: "list_ex (\<lambda>tc. validateTestCase anyHost tc \<noteq> None) [tcT1, tcNoTitle]"
    by (simp add: validateTestCase_None Struct_NoTitle)
  have good: "\<not> list_ex (\<lambda>tc. validateTestCase anyHost tc \<noteq> None) [tcT1, tcOneStep]"
    by (simp add: validateTestCase_None valid_tcT1 valid_tcOneStep)
  have paths: "folderPathOf tcOneStep = ''root''"
    by (simp add: folderPathOf_def tcOneStep_def tcT1_def)
  have steps: "maxStepCount [tcT1, tcOneStep] = 1"
    by (simp add: maxStepCount_def tcOneStep_def tcT1_def)
  from AddTestCases_all_or_nothing [of anyHost NewQASphereCSV "[tcT1, tcNoTitle]"] bad
  have first: "AddTestCases anyHost NewQASphereCSV [tcT1, tcNoTitle] =
      (NewQASphereCSV, Some (Wrap (MultiError (violations anyHost [tcT1, tcNoTitle])) ''validation''))"
    by simp
  from AddTestCases_all_or_nothing [of anyHost NewQASphereCSV "[tcT1, tcOneStep]"] good
  have second: "AddTestCases anyHost NewQASphereCSV [tcT1, tcOneStep] =
       (foldl addTCase NewQASphereCSV [tcT1, tcOneStep], None)
     \<and> lookupSlice (folderTCaseMap (foldl addTCase NewQASphereCSV [tcT1, tcOneStep])) ''root''
       = lookupSlice (folderTCaseMap NewQASphereCSV) ''root''
         @ filter (\<lambda>tc. folderPathOf tc = ''root'') [tcT1, tcOneStep]
     \<and> numTCases (foldl addTCase NewQASphereCSV [tcT1, tcOneStep]) = numTCases NewQASphereCSV + 2
     \<and> maxSteps (foldl addTCase NewQASphereCSV [tcT1, tcOneStep])
       = max (maxSteps NewQASphereCSV) (maxStepCount [tcT1, tcOneStep])"
    by simp
  from first second show ?thesis
    by (simp add: violations_example NewQASphereCSV_def lookupSlice_def folderPathOf_T1 paths steps)
qed

text \<open>
  Claim C3. For every record with one of the listed defects, the validator's
  errors hold an error whose namespace is the field of the defect; \<open>AddTestCase\<close>
  returns the engine unchanged with these errors wrapped as
  \<open>test case validation\<close>; and \<open>AddTestCases\<close>, on every batch that holds the record,
  returns the engine unchanged with a multierror that holds these errors, tagged
  with the record's position.
\<close>

theorem listed_defects_rejected:
  assumes "ns \<in> set (listedDefects tc)"
  shows "(\<exists>fe\<in>set (Struct_TestCase parseOK tc). fe_Namespace fe = ns)
    \<and> AddTestCase parseOK q tc =
        (q, Some (Wrap (ValidationErrors (Struct_TestCase parseOK tc)) ''test case validation''))
    \<and> (\<forall>pre post. \<exists>es.
          AddTestCases parseOK q (pre @ tc # post) = (q, Some (Wrap (MultiError es) ''validation''))
          \<and> Wrap (ValidationErrors (Struct_TestCase parseOK tc))
               (''test case '' @ itoa (int (length pre))) \<in> set es)"
proof -
  from assms have rep: "reports (Struct_TestCase parseOK tc) ns"
    by (rule listedDefects_reported)
  then have named: "\<exists>fe\<in>set (Struct_TestCase parseOK tc). fe_Namespace fe = ns"
    by (simp add: reports_def list_ex_iff)
  then have bad: "Struct_TestCase parseOK tc \<noteq> []"
    by auto
  then have one: "AddTestCase parseOK q tc =
      (q, Some (Wrap (ValidationErrors (Struct_TestCase parseOK tc)) ''test case validation''))"
    by (simp add: AddTestCase_def validateTestCase_Some)
  have many: "AddTestCases parseOK q (pre @ tc # post) =
        (q, Some (Wrap (MultiError (violations parseOK (pre @ tc # post))) ''validation''))
      \<and> Wrap (ValidationErrors (Struct_TestCase parseOK tc))
           (''test case '' @ itoa (int (length pre))) \<in> set (violations parseOK (pre @ tc # post))"
    for pre post
  proof -
    from bad have "\<not> list_all (\<lambda>tc. validateTestCase parseOK tc = None) (pre @ tc # post)"
      by (simp add: validateTestCase_None)
    then have "AddTestCases parseOK q (pre @ tc # post) =
        (q, Some (Wrap (MultiError (violations parseOK (pre @ tc # post))) ''validation''))"
      by (simp only: AddTestCases_eq if_False)
    moreover have "length pre \<in> set (filter (\<lambda>i. Struct_TestCase parseOK ((pre @ tc # post) ! i) \<noteq> [])
        [0..<length (pre @ tc # post)])"
      using bad by simp
    then have "Wrap (ValidationErrors (Struct_TestCase parseOK ((pre @ tc # post) ! length pre)))
           (''test case '' @ itoa (int (length pre))) \<in> set (violations parseOK (pre @ tc # post))"
      unfolding violations_def set_map by (rule imageI)
    ultimately show ?thesis by simp
  qed
  from named one many show ?thesis by blast
qed

text \<open>
  The theorem of C3 on the record of the repository's tests whose link has the URL
  \<open>ftp://link1\<close>.
\<close>

theorem listed_defects_rejected_witness:
  "''TestCase.Links[0].URL'' \<in> set (listedDefects tcBadLink)
   \<and> AddTestCase anyHost NewQASphereCSV tcBadLink =
        (NewQASphereCSV,
         Some (Wrap (ValidationErrors
           [\<lparr>fe_Namespace = ''TestCase.Links[0].URL'', fe_Field = ''URL'', fe_Tag = ''http_url''\<rparr>])
           ''test case validation''))"
  using listed_defects_rejected [OF defect_BadLink, of anyHost NewQASphereCSV] defect_BadLink
  by (simp add: Struct_BadLink)

text \<open>
  Claim C4. For every run of the engine and every order of ranging over its map,
  the data rows are the rows of the accumulated records taken in the order
  \<open>exportOrder\<close>; the first cell of a row is the '/'-joined folder path of its record.
  That order lists the folder paths in ascending order, keeps under every folder
  path the order in which the records were accumulated, and holds every accumulated
  record exactly once. The order of ranging over the map (\<open>ks\<close>) does not show in
  the result.
\<close>

theorem rows_grouped_by_sorted_folder:
  assumes "mapRange (folderTCaseMap (run parseOK cs)) ks"
  shows "\<exists>header dataRows.
     getCSVRows jsonStr ks (run parseOK cs) = Inr (header # dataRows)
     \<and> map Inr dataRows =
         map (\<lambda>tc. tcaseRow jsonStr (maxSteps (run parseOK cs)) (folderPathOf tc) tc)
           (exportOrder (accepted parseOK cs))
     \<and> map hd dataRows = map folderPathOf (exportOrder (accepted parseOK cs))
     \<and> sorted (map folderPathOf (exportOrder (accepted parseOK cs)))
     \<and> (\<forall>f. filter (\<lambda>tc. folderPathOf tc = f) (exportOrder (accepted parseOK cs))
            = filter (\<lambda>tc. folderPathOf tc = f) (accepted parseOK cs))
     \<and> mset (exportOrder (accepted parseOK cs)) = mset (accepted parseOK cs)"
proof -
  let ?recs = "accepted parseOK cs"
  let ?M = "maxStepCount ?recs"
  let ?rows = "map (\<lambda>tc. rowCells jsonStr ?M (folderPathOf tc) tc) (exportOrder ?recs)"
  have "getCSVRows jsonStr ks (run parseOK cs) = Inr (headerRow ?M # ?rows)"
    by (rule export_run [OF assms])
  moreover have "map Inr ?rows =
      map (\<lambda>tc. tcaseRow jsonStr (maxSteps (run parseOK cs)) (folderPathOf tc) tc) (exportOrder ?recs)"
    by (simp add: tcaseRow_rowCells maxSteps_run)
  moreover have "map hd ?rows = map folderPathOf (exportOrder ?recs)"
    by (simp add: rowCells_hd)
  ultimately show ?thesis
    using exportOrder_sorted [of ?recs] exportOrder_stable [of _ ?recs] exportOrder_mset [of ?recs]
    by blast
qed

text \<open>
  The theorem of C4 on the example run: \<open>tcAll\<close> added alone, then \<open>tcT1\<close> and
  \<open>tcOneStep\<close> added as a batch; the map is ranged over with \<open>root/child\<close> first.
\<close>

theorem rows_grouped_by_sorted_folder_witness:
  "mapRange (folderTCaseMap (run anyHost exampleCalls)) [''root/child'', ''root'']
   \<and> (\<exists>header dataRows.
        getCSVRows plainLiteral [''root/child'', ''root''] (run anyHost exampleCalls)
          = Inr (header # dataRows)
        \<and> map Inr dataRows =
            [tcaseRow plainLiteral 2 ''root'' tcT1, tcaseRow plainLiteral 2 ''root'' tcOneStep,
             tcaseRow plainLiteral 2 ''root/child'' tcAll]
        \<and> map hd dataRows = [''root'', ''root'', ''root/child''])"
proof -
  from rows_grouped_by_sorted_folder [OF mapRange_example, where jsonStr = plainLiteral]
  obtain header dataRows where
    "getCSVRows plainLiteral [''root/child'', ''root''] (run anyHost exampleCalls)
       = Inr (header # dataRows)"
    and "map Inr dataRows =
         map (\<lambda>tc. tcaseRow plainLiteral (maxSteps (run anyHost exampleCalls)) (folderPathOf tc) tc)
           (exportOrder (accepted anyHost exampleCalls))"
    and "map hd dataRows = map folderPathOf (exportOrder (accepted anyHost exampleCalls))"
    by blast
  then show ?thesis
    using mapRange_example
    by (simp add: accepted_example exportOrder_example maxSteps_run maxStepCount_example
        folderPathOf_T1 folderPathOf_All folderPathOf_OneStep)
qed

text \<open>
  Claim C5. For every run of the engine, the cell under \<open>Requirements\<close> of the row
  of an accumulated record is \<open>[Title](URL)\<close> of its requirement when it has one
  (whatever Title and URL are, the empty string included) and the empty string when
  it has none; the cell under \<open>Links\<close> is the empty string when the record has no
  link and otherwise its links, each as \<open>[Title](URL)\<close>, joined with commas.
\<close>

theorem requirement_and_links_cells:
  assumes "mapRange (folderTCaseMap (run parseOK cs)) ks"
  shows "\<exists>header dataRows.
     getCSVRows jsonStr ks (run parseOK cs) = Inr (header # dataRows)
     \<and> header ! 6 = ''Requirements'' \<and> header ! 7 = ''Links''
     \<and> length dataRows = length (exportOrder (accepted parseOK cs))
     \<and> (\<forall>i<length dataRows.
          dataRows ! i ! 6 =
            (case tc_Requirement (exportOrder (accepted parseOK cs) ! i) of
               None \<Rightarrow> []
             | Some r \<Rightarrow> ''['' @ req_Title r @ '']('' @ req_URL r @ '')'')
          \<and> dataRows ! i ! 7 =
            (if tc_Links (exportOrder (accepted parseOK cs) ! i) = [] then []
             else Join (map (\<lambda>l. ''['' @ link_Title l @ '']('' @ link_URL l @ '')'')
                    (tc_Links (exportOrder (accepted parseOK cs) ! i))) '',''))"
proof -
  let ?recs = "accepted parseOK cs"
  let ?M = "maxStepCount ?recs"
  let ?rows = "map (\<lambda>tc. rowCells jsonStr ?M (folderPathOf tc) tc) (exportOrder ?recs)"
  have rows: "getCSVRows jsonStr ks (run parseOK cs) = Inr (headerRow ?M # ?rows)"
    by (rule export_run [OF assms])
  have hdr: "headerRow ?M ! 6 = ''Requirements'' \<and> headerRow ?M ! 7 = ''Links''"
    by (simp add: headerRow_eq staticColumns_def)
  have cells: "rowCells jsonStr ?M f tc ! 6 =
        (case tc_Requirement tc of None \<Rightarrow> [] | Some r \<Rightarrow> ''['' @ req_Title r @ '']('' @ req_URL r @ '')'')
      \<and> rowCells jsonStr ?M f tc ! 7 =
        (if tc_Links tc = [] then []
         else Join (map (\<lambda>l. ''['' @ link_Title l @ '']('' @ link_URL l @ '')'') (tc_Links tc)) '','')"
    for f tc
    by (simp add: rowCells_eq Sprintf_link_def split: option.splits)
  from rows hdr cells show ?thesis by simp
qed

text \<open>
  The theorem of C5 on the example run: \<open>tcAll\<close> added alone, then \<open>tcT1\<close> and
  \<open>tcOneStep\<close> added as a batch; the map is ranged over with \<open>root/child\<close> first.
\<close>

theorem requirement_and_links_cells_witness:
  "mapRange (folderTCaseMap (run anyHost exampleCalls)) [''root/child'', ''root'']
   \<and> (\<exists>header dataRows.
        getCSVRows plainLiteral [''root/child'', ''root''] (run anyHost exampleCalls)
          = Inr (header # dataRows)
        \<and> length dataRows = 3
        \<and> dataRows ! 0 ! 6 = [] \<and> dataRows ! 0 ! 7 = []
        \<and> dataRows ! 2 ! 6 = ''[req1](http://req1)''
        \<and> dataRows ! 2 ! 7 = ''[link-1](http://link1),[link-2](http://link2)'')"
proof -
  from requirement_and_links_cells [OF mapRange_example, where jsonStr = plainLiteral]
  obtain header dataRows where
    rows: "getCSVRows plainLiteral [''root/child'', ''root''] (run anyHost exampleCalls)
       = Inr (header # dataRows)"
    and len: "length dataRows = length (exportOrder (accepted anyHost exampleCalls))"
    and cells: "\<forall>i<length dataRows.
          dataRows ! i ! 6 =
            (case tc_Requirement (exportOrder (accepted anyHost exampleCalls) ! i) of
               None \<Rightarrow> []
             | Some r \<Rightarrow> ''['' @ req_Title r @ '']('' @ req_URL r @ '')'')
          \<and> dataRows ! i ! 7 =
            (if tc_Links (exportOrder (accepted anyHost exampleCalls) ! i) = [] then []
             else Join (map (\<lambda>l. ''['' @ link_Title l @ '']('' @ link_URL l @ '')'')
                    (tc_Links (exportOrder (accepted anyHost exampleCalls) ! i))) '','')"
    by blast
  from len have l3: "length dataRows = 3"
    by (simp add: accepted_example exportOrder_example)
  from cells [rule_format, of 0] l3
  have c0: "dataRows ! 0 ! 6 = [] \<and> dataRows ! 0 ! 7 = []"
    by (simp add: accepted_example exportOrder_example req_T1 links_T1)
  from cells [rule_format, of 2] l3
  have c2: "dataRows ! 2 ! 6 = ''[req1](http://req1)''
      \<and> dataRows ! 2 ! 7 = ''[link-1](http://link1),[link-2](http://link2)''"
    by (simp add: accepted_example exportOrder_example req_All links_All)
  from rows l3 c0 c2 mapRange_example show ?thesis by blast
qed

text \<open>
  Claim C6. For every run of the engine, the cell under \<open>Files\<close> of the row of an
  accumulated record is the empty string when the record has no file, and otherwise
  the compact JSON array of one object per file, in the order of the files, each
  object as \<open>fileObject\<close> gives it: \<open>file_name\<close>, \<open>id\<close>, \<open>url\<close>, \<open>mime_type\<close>, \<open>size\<close> in
  this order, \<open>id\<close> and \<open>url\<close> absent when empty.
\<close>

theorem files_cell_json:
  assumes "mapRange (folderTCaseMap (run parseOK cs)) ks"
  shows "\<exists>header dataRows.
     getCSVRows jsonStr ks (run parseOK cs) = Inr (header # dataRows)
     \<and> header ! 8 = ''Files''
     \<and> length dataRows = length (exportOrder (accepted parseOK cs))
     \<and> (\<forall>i<length dataRows.
          dataRows ! i ! 8 =
            (if tc_Files (exportOrder (accepted parseOK cs) ! i) = [] then []
             else ''['' @ Join (map (fileObject jsonStr)
                    (tc_Files (exportOrder (accepted parseOK cs) ! i))) '','' @ '']''))"
proof -
  let ?recs = "accepted parseOK cs"
  let ?M = "maxStepCount ?recs"
  let ?rows = "map (\<lambda>tc. rowCells jsonStr ?M (folderPathOf tc) tc) (exportOrder ?recs)"
  have rows: "getCSVRows jsonStr ks (run parseOK cs) = Inr (headerRow ?M # ?rows)"
    by (rule export_run [OF assms])
  have hdr: "headerRow ?M ! 8 = ''Files''"
    by (simp add: headerRow_eq staticColumns_def)
  have enc: "map (encodeFile jsonStr) fs = map (fileObject jsonStr) fs" for fs
    by (simp add: encodeFile_eq)
  have cells: "rowCells jsonStr ?M f tc ! 8 =
        (if tc_Files tc = [] then []
         else ''['' @ Join (map (fileObject jsonStr) (tc_Files tc)) '','' @ '']'')"
    for f tc
    by (simp add: rowCells_eq arrayEncoder_Join enc)
  from rows hdr cells show ?thesis by simp
qed

text \<open>
  The theorem of C6 on the example run: \<open>tcAll\<close> added alone, then \<open>tcT1\<close> and
  \<open>tcOneStep\<close> added as a batch; the map is ranged over with \<open>root/child\<close> first.
\<close>

theorem files_cell_json_witness:
  "mapRange (folderTCaseMap (run anyHost exampleCalls)) [''root/child'', ''root'']
   \<and> (\<exists>header dataRows.
        getCSVRows plainLiteral [''root/child'', ''root''] (run anyHost exampleCalls)
          = Inr (header # dataRows)
        \<and> length dataRows = 3
        \<and> dataRows ! 0 ! 8 = []
        \<and> dataRows ! 2 ! 8 =
            ''[{'' @ plainLiteral ''file_name'' @ '':'' @ plainLiteral ''file-1.csv''
            @ '','' @ plainLiteral ''url'' @ '':'' @ plainLiteral ''http://file1''
            @ '','' @ plainLiteral ''mime_type'' @ '':'' @ plainLiteral ''text/csv''
            @ '','' @ plainLiteral ''size'' @ '':10},{''
            @ plainLiteral ''file_name'' @ '':'' @ plainLiteral ''file-1.csv''
            @ '','' @ plainLiteral ''id'' @ '':'' @ plainLiteral ''file-id''
            @ '','' @ plainLiteral ''mime_type'' @ '':'' @ plainLiteral ''text/csv''
            @ '','' @ plainLiteral ''size'' @ '':10}]'')"
proof -
  from files_cell_json [OF mapRange_example, where jsonStr = plainLiteral]
  obtain header dataRows where
    rows: "getCSVRows plainLiteral [''root/child'', ''root''] (run anyHost exampleCalls)
       = Inr (header # dataRows)"
    and len: "length dataRows = length (exportOrder (accepted anyHost exampleCalls))"
    and cells: "\<forall>i<length dataRows.
          dataRows ! i ! 8 =
            (if tc_Files (exportOrder (accepted anyHost exampleCalls) ! i) = [] then []
             else ''['' @ Join (map (fileObject plainLiteral)
                    (tc_Files (exportOrder (accepted anyHost exampleCalls) ! i))) '','' @ '']'')"
    by blast
  from len have l3: "length dataRows = 3"
    by (simp add: accepted_example exportOrder_example)
  from cells [rule_format, of 0] l3
  have c0: "dataRows ! 0 ! 8 = []"
    by (simp add: accepted_example exportOrder_example files_T1)
  from cells [rule_format, of 2] l3
  have c2: "dataRows ! 2 ! 8 =
      ''['' @ Join [fileObject plainLiteral file1, fileObject plainLiteral file2] '','' @ '']''"
    by (simp add: accepted_example exportOrder_example files_All)
  from rows l3 c0 c2 mapRange_example show ?thesis
    unfolding fileObject_file1 fileObject_file2 by simp
qed

text \<open>
  Claim C7, as amended. Adding the one record with Title \<open>T1\<close>, Folder \<open>[root]\<close>,
  Priority \<open>high\<close> and every other field at its default, then exporting, gives the
  header row of the 10 static columns (no step columns) and exactly one data row, of
  10 cells, whose text is \<open>root,T1,,false,high,,,,,\<close>: nine commas, five of them after
  \<open>high\<close>.
\<close>

theorem export_single_minimal_record:
  assumes "mapRange (folderTCaseMap (run parseOK [AddOne tcT1])) ks"
  shows "getCSVRows jsonStr ks (run parseOK [AddOne tcT1]) =
       Inr [staticColumns, [''root'', ''T1'', [], ''false'', ''high'', [], [], [], [], []]]
    \<and> GenerateCSV jsonStr ks (run parseOK [AddOne tcT1]) =
       Inr (''Folder,Name,Legacy ID,Draft,Priority,Tags,Requirements,Links,Files,Preconditions''
            @ [CHR 0x0A] @ ''root,T1,,false,high,,,,,'' @ [CHR 0x0A])"
proof -
  have rows: "getCSVRows jsonStr ks (run parseOK [AddOne tcT1]) =
       Inr [staticColumns, [''root'', ''T1'', [], ''false'', ''high'', [], [], [], [], []]]"
    unfolding export_run [OF assms] accepted_T1
    by (simp add: exportOrder_def maxStepCount_def steps_T1 folderPathOf_T1 rowCells_T1 headerRow_def)
  show ?thesis
    unfolding GenerateCSV_def writeCSV_def rows
    by (simp add: csv_WriteAll_def csv_header csv_row_T1 del: csv_fields.simps)
qed

text \<open>
  The theorem of C7 at the only order of a one-key map, with the two example
  parameters.
\<close>

theorem export_single_minimal_record_witness:
  "mapRange (folderTCaseMap (run anyHost [AddOne tcT1])) [''root'']
   \<and> GenerateCSV plainLiteral [''root''] (run anyHost [AddOne tcT1]) =
       Inr (''Folder,Name,Legacy ID,Draft,Priority,Tags,Requirements,Links,Files,Preconditions''
            @ [CHR 0x0A] @ ''root,T1,,false,high,,,,,'' @ [CHR 0x0A])"
  using export_single_minimal_record [OF mapRange_T1, where parseOK = anyHost and jsonStr = plainLiteral] mapRange_T1 [of anyHost]
  by simp

text \<open>
  Claim C7 as it is written gives the row ten commas (eleven cells):
  \<open>root,T1,,false,high,,,,,,\<close>. The export of that scenario is another text.
\<close>

theorem export_single_minimal_record_counterexample:
  "GenerateCSV plainLiteral [''root''] (run anyHost [AddOne tcT1]) \<noteq>
       Inr (''Folder,Name,Legacy ID,Draft,Priority,Tags,Requirements,Links,Files,Preconditions''
            @ [CHR 0x0A] @ ''root,T1,,false,high,,,,,,'' @ [CHR 0x0A])"
proof -
  have "getCSVRows plainLiteral [''root''] (run anyHost [AddOne tcT1]) =
       Inr [staticColumns, [''root'', ''T1'', [], ''false'', ''high'', [], [], [], [], []]]"
    unfolding export_run [OF mapRange_T1] accepted_T1
    by (simp add: exportOrder_def maxStepCount_def steps_T1 folderPathOf_T1 rowCells_T1 headerRow_def)
  then show ?thesis
    unfolding GenerateCSV_def writeCSV_def
    by (simp add: csv_WriteAll_def csv_header csv_row_T1 del: csv_fields.simps)
qed

text \<open>
  Claim C8. For every engine, two exports with no call in between give the same
  text. An export does not write to the engine (no function of the export assigns
  to a field of \<open>q\<close>), so the second export reads the engine the first one read;
  what may differ between the two is the order in which Go ranges over the map, and
  the rows and the text do not depend on it.
\<close>

theorem export_independent_of_map_order:
  assumes "mapRange (folderTCaseMap q) ks1" and "mapRange (folderTCaseMap q) ks2"
  shows "getCSVRows jsonStr ks1 q = getCSVRows jsonStr ks2 q
    \<and> GenerateCSV jsonStr ks1 q = GenerateCSV jsonStr ks2 q"
  using mapRange_sort [OF assms(1)] mapRange_sort [OF assms(2)]
  by (simp add: GenerateCSV_def writeCSV_def getCSVRows_eq)

text \<open>
  The theorem of C8 on an engine with two folders, ranged over in both orders.
\<close>

theorem export_independent_of_map_order_witness:
  "mapRange (folderTCaseMap (run anyHost [AddOne tcAll, AddOne tcT1])) [''root/child'', ''root'']
   \<and> mapRange (folderTCaseMap (run anyHost [AddOne tcAll, AddOne tcT1])) [''root'', ''root/child'']
   \<and> GenerateCSV plainLiteral [''root/child'', ''root''] (run anyHost [AddOne tcAll, AddOne tcT1])
     = GenerateCSV plainLiteral [''root'', ''root/child''] (run anyHost [AddOne tcAll, AddOne tcT1])"
  using export_independent_of_map_order [OF mapRange_two_a mapRange_two_b, where jsonStr = plainLiteral]
    mapRange_two_a mapRange_two_b
  by simp

text \<open>
  Claim C9. For every engine reached from a new one by calls of \<open>AddTestCase\<close> and
  \<open>AddTestCases\<close>, and every order of ranging over its map, the export returns rows
  and a text: it never returns an error, so never the one wrapped as
  \<open>json marshal files\<close>.
\<close>

theorem export_never_fails:
  "(\<exists>rows. getCSVRows jsonStr ks (run parseOK cs) = Inr rows)
   \<and> (\<exists>text. GenerateCSV jsonStr ks (run parseOK cs) = Inr text)"
  by (simp add: GenerateCSV_def writeCSV_def getCSVRows_eq)

text \<open>
  Claim C10. Exporting from a newly constructed engine succeeds and gives exactly
  one row, the header of the 10 static columns alone.
\<close>

theorem export_fresh_engine:
  assumes "mapRange (folderTCaseMap NewQASphereCSV) ks"
  shows "getCSVRows jsonStr ks NewQASphereCSV = Inr [staticColumns]
    \<and> GenerateCSV jsonStr ks NewQASphereCSV =
        Inr (''Folder,Name,Legacy ID,Draft,Priority,Tags,Requirements,Links,Files,Preconditions''
             @ [CHR 0x0A])"
proof -
  from assms have ks: "ks = []"
    by (simp add: mapRange_def NewQASphereCSV_def)
  have rows: "getCSVRows jsonStr ks NewQASphereCSV = Inr [staticColumns]"
    unfolding getCSVRows_eq ks by (simp add: NewQASphereCSV_def headerRow_def)
  show ?thesis
    unfolding GenerateCSV_def writeCSV_def rows
    by (simp add: csv_WriteAll_def csv_header)
qed

text \<open>
  The theorem of C10 at the only order of an empty map.
\<close>

theorem export_fresh_engine_witness:
  "mapRange (folderTCaseMap NewQASphereCSV) []
   \<and> getCSVRows plainLiteral [] NewQASphereCSV = Inr [staticColumns]
   \<and> GenerateCSV plainLiteral [] NewQASphereCSV =
        Inr (''Folder,Name,Legacy ID,Draft,Priority,Tags,Requirements,Links,Files,Preconditions''
             @ [CHR 0x0A])"
proof -
  have h: "mapRange (folderTCaseMap NewQASphereCSV) []"
    by (simp add: mapRange_def NewQASphereCSV_def)
  from export_fresh_engine [OF h, of plainLiteral] h show ?thesis by simp
qed

end
